theory Spec2Isabelle
  imports Main "HOL-Library.Word" "HOL-Library.List_Lexorder" "HOL-Library.Log_Nat"
begin

section \<open>The string pool of the Water library (\<^verbatim>\<open>water/text/StringPool.cpp\<close>)\<close>

text \<open>
  The pool keeps an \<^verbatim>\<open>Array<String>\<close> sorted by content and a timestamp of the last
  garbage collection. \<^verbatim>\<open>getPooledString\<close> (four overloads) looks a string up by binary
  search and inserts it when it is missing; \<^verbatim>\<open>garbageCollect\<close> drops the entries that only
  the pool still holds.

  The embedding works on characters as they lie in memory: a \<^verbatim>\<open>CharPointer_UTF8\<close> is the
  list of the characters that follow the pointer, each either the zero byte or a character
  whose first byte is not zero, together with the code point it decodes to. The end of the
  list stands for the terminating zero byte of the buffer (for a range: for its end). Tests
  of the byte under a pointer (\<^verbatim>\<open>*newString == 0\<close>, \<^verbatim>\<open>isEmpty()\<close>) look for the zero byte;
  the comparators look at decoded code points and stop at the first that is \<open>0\<close>. Code
  points are unsigned (\<^verbatim>\<open>water_uchar\<close>) and below \<open>2 ^ 21\<close>, so the \<^verbatim>\<open>int\<close> subtraction of the
  comparators cannot overflow and is done on \<open>int\<close>.
\<close>

subsection \<open>Strings and character pointers\<close>

type_synonym water_uchar = nat

text \<open>
  One character in memory. The UTF-8 decoder is not among the sources at hand, so nothing
  is assumed about the code points it yields for bytes that are not zero: \<open>Encoded 0\<close>, a
  character of non-zero bytes that decodes to \<open>0\<close> (as an overlong encoding would), is
  allowed. The zero byte decodes to \<open>0\<close>.
\<close>

datatype MemoryChar = ZeroByte | Encoded water_uchar

fun codePoint :: "MemoryChar \<Rightarrow> water_uchar" where
  "codePoint ZeroByte = 0"
| "codePoint (Encoded c) = c"

type_synonym CharPointer = "MemoryChar list"

text \<open>
  A \<^verbatim>\<open>String\<close> is a handle to a shared, reference-counted, immutable buffer. \<open>holder\<close> is
  the identity (address) of that buffer: two handles denote the same storage exactly when
  their holders are equal. \<open>getCharPointer\<close> is what \<^verbatim>\<open>String::getCharPointer()\<close> points to.
  The reference count of a holder is shared mutable state outside the pool; the pool only
  reads it, during a collection, so it is an input of that operation (see \<open>Environment\<close>).
\<close>

record String =
  holder :: nat
  getCharPointer :: CharPointer

text \<open>\<^verbatim>\<open>String()\<close>: every empty string shares one static holder, here address \<open>0\<close>.\<close>

definition emptyString :: String where
  "emptyString = \<lparr>holder = 0, getCharPointer = []\<rparr>"

text \<open>
  \<^verbatim>\<open>getAndAdvance\<close> decodes the character under the pointer and moves past it; at the end
  of the list it reads the terminating zero byte.
\<close>

fun getAndAdvance :: "CharPointer \<Rightarrow> water_uchar \<times> CharPointer" where
  "getAndAdvance [] = (0, [])"
| "getAndAdvance (c # cs) = (codePoint c, cs)"

text \<open>
  The test \<^verbatim>\<open>*newString == 0\<close> on a \<^verbatim>\<open>const char*\<close>: the byte under the pointer is zero.
  Nothing is decoded.
\<close>

fun pointsAtZeroByte :: "CharPointer \<Rightarrow> bool" where
  "pointsAtZeroByte [] = True"
| "pointsAtZeroByte (ZeroByte # cs) = True"
| "pointsAtZeroByte (Encoded c # cs) = False"

text \<open>
  Modelled from the spec: \<^verbatim>\<open>isEmpty()\<close> of a character pointer, of a \<^verbatim>\<open>StringRef\<close> and of a
  \<^verbatim>\<open>String\<close> is declared in headers that are not among the sources at hand. An input is
  empty when it has no character: the byte under the pointer to its text is zero.
\<close>

definition isEmpty :: "CharPointer \<Rightarrow> bool" where
  "isEmpty p = pointsAtZeroByte p"

text \<open>The characters in front of the first zero byte: what the buffer holds as a C string.\<close>

definition beforeZeroByte :: "CharPointer \<Rightarrow> CharPointer" where
  "beforeZeroByte p = takeWhile (\<lambda>c. c \<noteq> ZeroByte) p"

text \<open>
  The code points a decoding reader sees: those before the first that is \<open>0\<close>, be it the
  zero byte or a character that decodes to \<open>0\<close>.
\<close>

definition untilTerminator :: "CharPointer \<Rightarrow> water_uchar list" where
  "untilTerminator p = takeWhile (\<lambda>c. c \<noteq> 0) (map codePoint p)"

definition content :: "String \<Rightarrow> water_uchar list" where
  "content s = untilTerminator (getCharPointer s)"

lemma getAndAdvance_shorter:
  "getAndAdvance s = (c, s') \<Longrightarrow> c \<noteq> 0 \<Longrightarrow> length s' < length s"
  by (cases s) auto

subsection \<open>The three comparators\<close>

text \<open>
  Modelled from the spec: \<^verbatim>\<open>CharPointer_UTF8::compare\<close>, which \<^verbatim>\<open>String::compare\<close> and the
  first two \<^verbatim>\<open>compareStrings\<close> overloads call, lives in the character-pointer headers, which
  are not among the sources at hand. The spec asks for a strict lexicographic three-way
  comparison over content; it is written here as the same loop as the range comparator
  below, without the range bound.
\<close>

function CharPointer_compare :: "CharPointer \<Rightarrow> CharPointer \<Rightarrow> int" where
  "CharPointer_compare s1 s2 =
     (let (c1, s1') = getAndAdvance s1;
          (c2, s2') = getAndAdvance s2;
          diff = int c1 - int c2
      in if diff \<noteq> 0 then (if diff < 0 then - 1 else 1)
         else if c1 = 0 then 0
         else CharPointer_compare s1' s2')"
  by pat_completeness auto
termination
  by (relation "measure (\<lambda>(s1, s2). length s1)")
     (auto dest: getAndAdvance_shorter [OF sym])

text \<open>Modelled from the spec: \<^verbatim>\<open>String::compare\<close> compares the two character pointers.\<close>

definition String_compare :: "String \<Rightarrow> String \<Rightarrow> int" where
  "String_compare s1 s2 = CharPointer_compare (getCharPointer s1) (getCharPointer s2)"

text \<open>
  The loop of \<^verbatim>\<open>compareStrings (const StartEndString&, const String&)\<close>. The first argument
  is what is left of the range \<open>[s1, string1.end)\<close>, so \<^verbatim>\<open>s1 < string1.end\<close> is \<open>s1 \<noteq> []\<close>;
  nothing behind the end of the range is read.
\<close>

function compareStartEnd :: "CharPointer \<Rightarrow> CharPointer \<Rightarrow> int" where
  "compareStartEnd s1 s2 =
     (let (c1, s1') = (if s1 \<noteq> [] then getAndAdvance s1 else (0, s1));
          (c2, s2') = getAndAdvance s2;
          diff = int c1 - int c2
      in if diff \<noteq> 0 then (if diff < 0 then - 1 else 1)
         else if c1 = 0 then 0
         else compareStartEnd s1' s2')"
  by pat_completeness auto
termination
  by (relation "measure (\<lambda>(s1, s2). length s1)")
     (auto split: if_splits dest: getAndAdvance_shorter [OF sym])

text \<open>
  The template parameter \<^verbatim>\<open>NewStringType\<close> of \<^verbatim>\<open>addPooledString\<close> is instantiated with
  \<^verbatim>\<open>CharPointer_UTF8\<close>, \<^verbatim>\<open>StartEndString\<close> (the list of the characters in \<open>[start, end)\<close>) and
  \<^verbatim>\<open>String\<close>; overload resolution of \<^verbatim>\<open>compareStrings\<close> becomes a case distinction.
\<close>

datatype NewStringType =
    NewCharPointer_UTF8 CharPointer
  | NewStartEndString CharPointer
  | NewString String

fun compareStrings :: "NewStringType \<Rightarrow> String \<Rightarrow> int" where
  "compareStrings (NewString s1) s2 = String_compare s1 s2"
| "compareStrings (NewCharPointer_UTF8 s1) s2 = CharPointer_compare s1 (getCharPointer s2)"
| "compareStrings (NewStartEndString string1) string2 =
     compareStartEnd string1 (getCharPointer string2)"

text \<open>The content of an input, as a reader of a terminated buffer sees it.\<close>

fun newContent :: "NewStringType \<Rightarrow> water_uchar list" where
  "newContent (NewString s) = content s"
| "newContent (NewCharPointer_UTF8 p) = untilTerminator p"
| "newContent (NewStartEndString r) = untilTerminator r"

text \<open>The three-way result of the strict lexicographic order on code-point lists.\<close>

definition threeWay :: "water_uchar list \<Rightarrow> water_uchar list \<Rightarrow> int" where
  "threeWay a b = (if a < b then - 1 else if a = b then 0 else 1)"

subsection \<open>Lookup or insert: \<^verbatim>\<open>addPooledString\<close>\<close>

text \<open>
  Modelled from the spec: \<^verbatim>\<open>Array::insert\<close> and \<^verbatim>\<open>Array::remove\<close> (the container header is
  not among the sources at hand). An insertion at an index inside the array shifts the
  tail up, at any other index it appends; a removal at an index inside the array shifts
  the tail down, at any other index it does nothing.
\<close>

definition Array_insert :: "nat \<Rightarrow> 'a \<Rightarrow> 'a list \<Rightarrow> 'a list" where
  "Array_insert i x xs = (if i < length xs then take i xs @ x # drop i xs else xs @ [x])"

definition Array_remove :: "nat \<Rightarrow> 'a list \<Rightarrow> 'a list" where
  "Array_remove i xs = (if i < length xs then take i xs @ drop (Suc i) xs else xs)"

text \<open>
  Modelled from the spec: the conversion of the input to the \<^verbatim>\<open>String\<close> that
  \<^verbatim>\<open>strings.insert (start, newString)\<close> stores. A \<^verbatim>\<open>String\<close> is copied and shares its holder;
  a character pointer is copied up to its terminating zero byte and a range is copied
  whole, both into a new holder, whose address \<open>newHolder\<close> the allocator chooses. An input
  with the zero byte under its pointer yields the shared empty string.
\<close>

fun toString :: "nat \<Rightarrow> NewStringType \<Rightarrow> String" where
  "toString newHolder (NewString s) = s"
| "toString newHolder (NewCharPointer_UTF8 p) =
     (if isEmpty p then emptyString
      else \<lparr>holder = newHolder, getCharPointer = beforeZeroByte p\<rparr>)"
| "toString newHolder (NewStartEndString r) =
     (if isEmpty r then emptyString
      else \<lparr>holder = newHolder, getCharPointer = r\<rparr>)"

text \<open>
  One pass through the body of \<^verbatim>\<open>while (start < end)\<close>: it returns an entry, breaks with
  the insertion index, or continues with new bounds. Indices are \<open>nat\<close>: they are never
  negative, and \<open>(start + end) / 2\<close> is then the rounding-down division.
\<close>

datatype LoopStep = Return String | Break nat | Continue nat nat

definition addPooledString_iteration ::
  "String list \<Rightarrow> NewStringType \<Rightarrow> nat \<Rightarrow> nat \<Rightarrow> LoopStep" where
  "addPooledString_iteration strings newString start end =
     (let startString = strings ! start;
          startComp = compareStrings newString startString
      in if startComp = 0 then Return startString
         else let halfway = (start + end) div 2
              in if halfway = start
                 then Break (if startComp > 0 then start + 1 else start)
                 else let halfwayString = strings ! halfway;
                          halfwayComp = compareStrings newString halfwayString
                      in if halfwayComp = 0 then Return halfwayString
                         else if halfwayComp > 0 then Continue halfway end
                         else Continue start halfway)"

lemma iteration_Continue:
  assumes "addPooledString_iteration strings newString start end = Continue start' end'"
  shows "(start + end) div 2 \<noteq> start \<and>
         (start' = (start + end) div 2 \<and> end' = end \<or>
          start' = start \<and> end' = (start + end) div 2)"
  using assms unfolding addPooledString_iteration_def Let_def
  by (auto split: if_splits)

lemma iteration_shrinks:
  assumes "start < end"
    and "addPooledString_iteration strings newString start end = Continue start' end'"
  shows "end' - start' < end - start"
  using iteration_Continue [OF assms(2)] assms(1) by auto

text \<open>
  The loop. \<open>Inl\<close> is the entry that one of the two \<^verbatim>\<open>return\<close> statements inside the loop
  hands back, \<open>Inr\<close> the value of \<open>start\<close> when the loop is left by \<^verbatim>\<open>break\<close> or by its
  condition.
\<close>

function addPooledString_loop ::
  "String list \<Rightarrow> NewStringType \<Rightarrow> nat \<Rightarrow> nat \<Rightarrow> String + nat" where
  "addPooledString_loop strings newString start end =
     (if start < end then
        (case addPooledString_iteration strings newString start end of
           Return found \<Rightarrow> Inl found
         | Break start' \<Rightarrow> Inr start'
         | Continue start' end' \<Rightarrow> addPooledString_loop strings newString start' end')
      else Inr start)"
  by pat_completeness auto
termination
  by (relation "measure (\<lambda>(strings, newString, start, end). end - start)")
     (auto dest: iteration_shrinks)

text \<open>The number of times the loop body is entered, by the same recursion.\<close>

function addPooledString_iterations ::
  "String list \<Rightarrow> NewStringType \<Rightarrow> nat \<Rightarrow> nat \<Rightarrow> nat" where
  "addPooledString_iterations strings newString start end =
     (if start < end then
        (case addPooledString_iteration strings newString start end of
           Return found \<Rightarrow> 1
         | Break start' \<Rightarrow> 1
         | Continue start' end' \<Rightarrow>
             1 + addPooledString_iterations strings newString start' end')
      else 0)"
  by pat_completeness auto
termination
  by (relation "measure (\<lambda>(strings, newString, start, end). end - start)")
     (auto dest: iteration_shrinks)

text \<open>
  \<^verbatim>\<open>addPooledString\<close> returns the new array and the returned string. The array is unchanged
  when the loop returned an entry; otherwise the converted input is inserted at \<open>start\<close>
  and \<^verbatim>\<open>strings.getReference (start)\<close> is returned.
\<close>

definition addPooledString ::
  "nat \<Rightarrow> String list \<Rightarrow> NewStringType \<Rightarrow> String list \<times> String" where
  "addPooledString newHolder strings newString =
     (case addPooledString_loop strings newString 0 (length strings) of
        Inl found \<Rightarrow> (strings, found)
      | Inr start \<Rightarrow>
          (let strings' = Array_insert start (toString newHolder newString) strings
           in (strings', strings' ! start)))"

subsection \<open>The pool and its garbage collection\<close>

text \<open>
  \<^verbatim>\<open>for (int i = strings.size(); --i >= 0;)\<close>: the second argument is the value of \<open>i\<close>
  before the decrement, so the loop ends at \<open>0\<close> and otherwise visits index \<open>i - 1\<close>.
\<close>

fun garbageCollect_loop :: "(nat \<Rightarrow> nat) \<Rightarrow> nat \<Rightarrow> String list \<Rightarrow> String list" where
  "garbageCollect_loop referenceCount 0 strings = strings"
| "garbageCollect_loop referenceCount (Suc i) strings =
     (if referenceCount (holder (strings ! i)) = 1
      then garbageCollect_loop referenceCount i (Array_remove i strings)
      else garbageCollect_loop referenceCount i strings)"

text \<open>
  Modelled from the spec: the class declaration is in the header, which is not among the
  sources at hand; the timestamp is an unsigned 32-bit millisecond counter, like
  \<^verbatim>\<open>garbageCollectionInterval\<close> and the value of \<^verbatim>\<open>Time::getApproximateMillisecondCounter()\<close>.
\<close>

record StringPool =
  strings :: "String list"
  lastGarbageCollectionTime :: "32 word"

text \<open>The constructor \<^verbatim>\<open>StringPool()\<close>.\<close>

definition newStringPool :: StringPool where
  "newStringPool = \<lparr>strings = [], lastGarbageCollectionTime = 0\<rparr>"

definition minNumberOfStringsForGarbageCollection :: int where
  "minNumberOfStringsForGarbageCollection = 300"

definition garbageCollectionInterval :: "32 word" where
  "garbageCollectionInterval = 30000"

text \<open>
  What a call reads from outside the pool: the reference count of each holder
  (\<^verbatim>\<open>getReferenceCount()\<close> is the number of handles to it, the pool's own included), the
  millisecond counter when the guard of \<^verbatim>\<open>garbageCollectIfNeeded\<close> reads it and when
  \<^verbatim>\<open>garbageCollect\<close> reads it after its scan, and the address of the holder that a
  conversion to \<^verbatim>\<open>String\<close> allocates.

  The counts are read once per entry during the scan. An entry is removed only when its
  count is \<open>1\<close>, that is when the pool's slot is the only handle, so a removal never
  changes the count of an entry that is still to be visited, and one function of the
  holder describes all the reads of a scan.
\<close>

record Environment =
  getReferenceCount :: "nat \<Rightarrow> nat"
  millisecondCounter :: "32 word"
  millisecondCounterAfterScan :: "32 word"
  allocatedHolder :: nat

definition garbageCollect :: "(nat \<Rightarrow> nat) \<Rightarrow> 32 word \<Rightarrow> StringPool \<Rightarrow> StringPool" where
  "garbageCollect referenceCount now pool =
     pool\<lparr>strings := garbageCollect_loop referenceCount (length (strings pool)) (strings pool),
          lastGarbageCollectionTime := now\<rparr>"

definition garbageCollectIfNeeded :: "Environment \<Rightarrow> StringPool \<Rightarrow> StringPool" where
  "garbageCollectIfNeeded env pool =
     (if int (length (strings pool)) > minNumberOfStringsForGarbageCollection
         \<and> millisecondCounter env > lastGarbageCollectionTime pool + garbageCollectionInterval
      then garbageCollect (getReferenceCount env) (millisecondCounterAfterScan env) pool
      else pool)"

text \<open>
  The three statements that every overload of \<^verbatim>\<open>getPooledString\<close> runs under the lock:
  the collection check, then the lookup or insertion.
\<close>

definition getPooledString_locked ::
  "Environment \<Rightarrow> StringPool \<Rightarrow> NewStringType \<Rightarrow> String \<times> StringPool" where
  "getPooledString_locked env pool newString =
     (let pool' = garbageCollectIfNeeded env pool;
          (strings', result) = addPooledString (allocatedHolder env) (strings pool') newString
      in (result, pool'\<lparr>strings := strings'\<rparr>))"

text \<open>
  The four overloads of \<^verbatim>\<open>getPooledString\<close>, by the shape of their argument: a
  \<^verbatim>\<open>const char*\<close> (\<open>None\<close> is \<^verbatim>\<open>nullptr\<close>), a range \<open>[start, end)\<close> (the list of its
  characters, so \<^verbatim>\<open>start == end\<close> is the empty list), a \<^verbatim>\<open>StringRef\<close> and a \<^verbatim>\<open>String\<close>.
  For an empty range the byte under \<open>start\<close> lies behind the range and is not modelled;
  the test \<^verbatim>\<open>start == end\<close> decides then, whatever \<^verbatim>\<open>start.isEmpty()\<close> gives.
\<close>

datatype PooledStringInput =
    RawBuffer "CharPointer option"
  | StartEnd CharPointer
  | Ref CharPointer
  | Owned String

fun getPooledString ::
  "Environment \<Rightarrow> StringPool \<Rightarrow> PooledStringInput \<Rightarrow> String \<times> StringPool" where
  "getPooledString env pool (RawBuffer newString) =
     (case newString of
        None \<Rightarrow> (emptyString, pool)
      | Some p \<Rightarrow>
          if pointsAtZeroByte p then (emptyString, pool)
          else getPooledString_locked env pool (NewCharPointer_UTF8 p))"
| "getPooledString env pool (StartEnd r) =
     (if isEmpty r \<or> r = [] then (emptyString, pool)
      else getPooledString_locked env pool (NewStartEndString r))"
| "getPooledString env pool (Ref newString) =
     (if isEmpty newString then (emptyString, pool)
      else getPooledString_locked env pool (NewCharPointer_UTF8 newString))"
| "getPooledString env pool (Owned newString) =
     (if isEmpty (getCharPointer newString) then (emptyString, pool)
      else getPooledString_locked env pool (NewString newString))"

text \<open>
  The characters of an argument of \<^verbatim>\<open>getPooledString\<close> in front of its first zero byte; a
  null pointer has none. The argument is null or empty exactly when there are none.
\<close>

fun inputCharacters :: "PooledStringInput \<Rightarrow> CharPointer" where
  "inputCharacters (RawBuffer None) = []"
| "inputCharacters (RawBuffer (Some p)) = beforeZeroByte p"
| "inputCharacters (StartEnd r) = beforeZeroByte r"
| "inputCharacters (Ref p) = beforeZeroByte p"
| "inputCharacters (Owned s) = beforeZeroByte (getCharPointer s)"

text \<open>The content of an argument of \<^verbatim>\<open>getPooledString\<close>, as the comparators read it.\<close>

fun inputContent :: "PooledStringInput \<Rightarrow> water_uchar list" where
  "inputContent (RawBuffer None) = []"
| "inputContent (RawBuffer (Some p)) = untilTerminator p"
| "inputContent (StartEnd r) = untilTerminator r"
| "inputContent (Ref p) = untilTerminator p"
| "inputContent (Owned s) = content s"

text \<open>
  A run of the pool: interning calls, each with what it reads from its environment, and
  explicit collections (\<^verbatim>\<open>garbageCollect\<close> is public), from the freshly constructed pool.
\<close>

datatype Operation =
    Intern Environment PooledStringInput
  | GarbageCollect "nat \<Rightarrow> nat" "32 word"

fun perform :: "StringPool \<Rightarrow> Operation \<Rightarrow> StringPool" where
  "perform pool (Intern env input) = snd (getPooledString env pool input)"
| "perform pool (GarbageCollect referenceCount now) = garbageCollect referenceCount now pool"

definition run :: "Operation list \<Rightarrow> StringPool" where
  "run ops = foldl perform newStringPool ops"

text \<open>
  The instantiation of \<^verbatim>\<open>addPooledString\<close> that each overload uses once its argument is
  known not to be empty (a \<^verbatim>\<open>StringRef\<close> hands over its character pointer).
\<close>

fun asNewString :: "PooledStringInput \<Rightarrow> NewStringType" where
  "asNewString (RawBuffer None) = NewCharPointer_UTF8 []"
| "asNewString (RawBuffer (Some p)) = NewCharPointer_UTF8 p"
| "asNewString (StartEnd r) = NewStartEndString r"
| "asNewString (Ref p) = NewCharPointer_UTF8 p"
| "asNewString (Owned s) = NewString s"

text \<open>
  The guard of \<^verbatim>\<open>garbageCollectIfNeeded\<close>, named: a pass is due. An operation spares an
  entry when it runs no pass, or runs one while the reference count it reads for the
  entry's holder is not \<open>1\<close>. A sequence of operations does not collect an entry when each
  of them, in the state it finds, spares it.
\<close>

definition collectionDue :: "Environment \<Rightarrow> StringPool \<Rightarrow> bool" where
  "collectionDue env pool =
     (int (length (strings pool)) > minNumberOfStringsForGarbageCollection
      \<and> millisecondCounter env > lastGarbageCollectionTime pool + garbageCollectionInterval)"

fun spares :: "String \<Rightarrow> StringPool \<Rightarrow> Operation \<Rightarrow> bool" where
  "spares e pool (Intern env input) =
     (inputCharacters input = [] \<or> \<not> collectionDue env pool
      \<or> getReferenceCount env (holder e) \<noteq> 1)"
| "spares e pool (GarbageCollect referenceCount now) = (referenceCount (holder e) \<noteq> 1)"

fun notCollected :: "String \<Rightarrow> StringPool \<Rightarrow> Operation list \<Rightarrow> bool" where
  "notCollected e pool [] = True"
| "notCollected e pool (op # ops) = (spares e pool op \<and> notCollected e (perform pool op) ops)"

text \<open>The pool's invariant: the table is strictly sorted by content.\<close>

definition strictlySorted :: "String list \<Rightarrow> bool" where
  "strictlySorted table = sorted_wrt (<) (map content table)"

subsection \<open>Example data\<close>

text \<open>
  Concrete inputs for the examples below: the strings "foo" and "bar" as code points, a
  sorted table of \<open>n\<close> one-character strings with the holders \<open>1, \<dots>, n\<close>, a pool over it,
  an environment in which no collection is due and every holder has an outside handle, and
  one in which no holder has an outside handle.
\<close>

definition foo :: CharPointer where
  "foo = map Encoded [102, 111, 111]"

definition bar :: CharPointer where
  "bar = map Encoded [98, 97, 114]"

definition exampleTable :: "nat \<Rightarrow> String list" where
  "exampleTable n =
     map (\<lambda>k. \<lparr>holder = Suc k, getCharPointer = [Encoded (Suc k)]\<rparr>) [0..<n]"

definition examplePool :: "nat \<Rightarrow> 32 word \<Rightarrow> StringPool" where
  "examplePool n t = \<lparr>strings = exampleTable n, lastGarbageCollectionTime = t\<rparr>"

definition quietEnvironment :: "nat \<Rightarrow> Environment" where
  "quietEnvironment h =
     \<lparr>getReferenceCount = (\<lambda>a. 2), millisecondCounter = 0,
      millisecondCounterAfterScan = 0, allocatedHolder = h\<rparr>"

definition unreferencedEnvironment :: "32 word \<Rightarrow> nat \<Rightarrow> Environment" where
  "unreferencedEnvironment now h =
     \<lparr>getReferenceCount = (\<lambda>a. 1), millisecondCounter = now,
      millisecondCounterAfterScan = now, allocatedHolder = h\<rparr>"

definition exampleOperations :: "Operation list" where
  "exampleOperations =
     [Intern (quietEnvironment 1) (RawBuffer (Some foo)),
      Intern (quietEnvironment 2) (Ref bar),
      GarbageCollect (\<lambda>h. 2) 5]"

text \<open>
  The interning calls that build \<open>examplePool n 0\<close> from a new pool: one call per string, at
  any counter value (here 40000), each handle dropped again.
\<close>

definition exampleInterns :: "nat \<Rightarrow> Operation list" where
  "exampleInterns n =
     map (\<lambda>k. Intern (unreferencedEnvironment 40000 (Suc k)) (Ref [Encoded (Suc k)])) [0..<n]"

section \<open>Properties\<close>

subsection \<open>The comparators\<close>

declare CharPointer_compare.simps [simp del] compareStartEnd.simps [simp del]
declare addPooledString_loop.simps [simp del] addPooledString_iterations.simps [simp del]

lemma CharPointer_compare_threeWay:
  "CharPointer_compare s1 s2 = threeWay (untilTerminator s1) (untilTerminator s2)"
proof (induction s1 s2 rule: CharPointer_compare.induct)
  case (1 s1 s2)
  show ?case
  proof (cases s1)
    case Nil
    then show ?thesis
      by (cases s2)
         (auto simp: CharPointer_compare.simps [of "[]"] threeWay_def untilTerminator_def)
  next
    case (Cons a as)
    note s1 = Cons
    show ?thesis
    proof (cases s2)
      case Nil
      then show ?thesis using s1
        by (auto simp: CharPointer_compare.simps [of "a # as"] threeWay_def untilTerminator_def)
    next
      case (Cons b bs)
      then show ?thesis
        using s1 "1.IH" [of "(codePoint a, as)" "codePoint a" as "(codePoint b, bs)" "codePoint b" bs
            "int (codePoint a) - int (codePoint b)"]
        by (auto simp: CharPointer_compare.simps [of "a # as"] threeWay_def untilTerminator_def)
    qed
  qed
qed

lemma compareStartEnd_threeWay:
  "compareStartEnd s1 s2 = threeWay (untilTerminator s1) (untilTerminator s2)"
proof (induction s1 s2 rule: compareStartEnd.induct)
  case (1 s1 s2)
  show ?case
  proof (cases s1)
    case Nil
    then show ?thesis
      by (cases s2)
         (auto simp: compareStartEnd.simps [of "[]"] threeWay_def untilTerminator_def)
  next
    case (Cons a as)
    note s1 = Cons
    show ?thesis
    proof (cases s2)
      case Nil
      then show ?thesis using s1
        by (auto simp: compareStartEnd.simps [of "a # as"] threeWay_def untilTerminator_def)
    next
      case (Cons b bs)
      then show ?thesis
        using s1 "1.IH" [of "(codePoint a, as)" "codePoint a" as "(codePoint b, bs)" "codePoint b" bs
            "int (codePoint a) - int (codePoint b)"]
        by (auto simp: compareStartEnd.simps [of "a # as"] threeWay_def untilTerminator_def)
    qed
  qed
qed

lemma compareStrings_threeWay:
  "compareStrings newString s = threeWay (newContent newString) (content s)"
  by (cases newString)
     (simp_all add: String_compare_def content_def CharPointer_compare_threeWay
        compareStartEnd_threeWay)

lemma isEmpty_simps [simp]:
  "isEmpty [] = True" "isEmpty (ZeroByte # cs) = True" "isEmpty (Encoded c # cs) = False"
  by (simp_all add: isEmpty_def)

lemma pointsAtZeroByte_iff: "pointsAtZeroByte p \<longleftrightarrow> beforeZeroByte p = []"
  by (cases p rule: pointsAtZeroByte.cases) (simp_all add: beforeZeroByte_def)

lemma isEmpty_iff: "isEmpty p \<longleftrightarrow> beforeZeroByte p = []"
  by (simp add: isEmpty_def pointsAtZeroByte_iff)

lemma isEmpty_no_content: "isEmpty p \<Longrightarrow> untilTerminator p = []"
  by (cases p rule: pointsAtZeroByte.cases) (simp_all add: untilTerminator_def)

lemma untilTerminator_beforeZeroByte: "untilTerminator (beforeZeroByte p) = untilTerminator p"
proof (induction p)
  case Nil
  show ?case by (simp add: beforeZeroByte_def)
next
  case (Cons c p)
  then show ?case by (cases c) (simp_all add: beforeZeroByte_def untilTerminator_def)
qed

subsection \<open>The binary search\<close>

lemma threeWay_zero: "threeWay a b = 0 \<longleftrightarrow> a = b"
  by (auto simp: threeWay_def)

lemma threeWay_pos: "0 < threeWay a b \<longleftrightarrow> b < a"
  by (auto simp: threeWay_def)

lemma threeWay_neg: "threeWay a b < 0 \<longleftrightarrow> a < b"
  by (auto simp: threeWay_def)

lemma strictlySorted_nth:
  "strictlySorted table \<Longrightarrow> i < j \<Longrightarrow> j < length table \<Longrightarrow>
   content (table ! i) < content (table ! j)"
  by (simp add: strictlySorted_def sorted_wrt_iff_nth_less)

lemma strictlySorted_nth_le:
  "strictlySorted table \<Longrightarrow> i \<le> j \<Longrightarrow> j < length table \<Longrightarrow>
   content (table ! i) \<le> content (table ! j)"
  using strictlySorted_nth [of table i j] by (cases "i = j") auto

text \<open>What one pass through the loop body establishes.\<close>

lemma iteration_spec:
  assumes sorted: "strictlySorted table"
    and bounds: "start < end" "end \<le> length table"
    and below: "\<forall>i. i < start \<longrightarrow> content (table ! i) < newContent n"
    and above: "\<forall>i. end \<le> i \<and> i < length table \<longrightarrow> newContent n < content (table ! i)"
  shows "case addPooledString_iteration table n start end of
           Return found \<Rightarrow> found \<in> set table \<and> content found = newContent n
         | Break pos \<Rightarrow> pos \<le> length table
             \<and> (\<forall>i<pos. content (table ! i) < newContent n)
             \<and> (\<forall>i. pos \<le> i \<and> i < length table \<longrightarrow> newContent n < content (table ! i))
         | Continue start' end' \<Rightarrow> start' < end' \<and> end' \<le> length table
             \<and> (\<forall>i. i < start' \<longrightarrow> content (table ! i) < newContent n)
             \<and> (\<forall>i. end' \<le> i \<and> i < length table \<longrightarrow> newContent n < content (table ! i))"
proof -
  define c where "c = newContent n"
  define h where "h = (start + end) div 2"
  have cs: "compareStrings n s = threeWay c (content s)" for s
    by (simp add: compareStrings_threeWay c_def)
  have h: "start \<le> h" "h < end" using bounds by (auto simp: h_def)
  show ?thesis
  proof (cases "c = content (table ! start)")
    case True
    then show ?thesis using bounds
      by (simp add: addPooledString_iteration_def cs threeWay_zero c_def [symmetric])
  next
    case ne: False
    show ?thesis
    proof (cases "h = start")
      case True
      then have e: "end = Suc start" using bounds by (auto simp: h_def)
      show ?thesis
      proof (cases "content (table ! start) < c")
        case True
        have "\<forall>i. i < Suc start \<longrightarrow> content (table ! i) < c"
          using below True by (auto simp: less_Suc_eq c_def)
        then show ?thesis using ne True \<open>h = start\<close> bounds above e
          by (simp add: addPooledString_iteration_def cs threeWay_zero threeWay_pos
              c_def [symmetric] h_def [symmetric])
      next
        case False
        then have lt: "c < content (table ! start)" using ne by auto
        have "\<forall>i. start \<le> i \<and> i < length table \<longrightarrow> c < content (table ! i)"
        proof (intro allI impI)
          fix i assume i: "start \<le> i \<and> i < length table"
          show "c < content (table ! i)"
          proof (cases "i = start")
            case True then show ?thesis using lt by simp
          next
            case False
            then have "end \<le> i" using i e by auto
            then show ?thesis using above i by (auto simp: c_def)
          qed
        qed
        then show ?thesis using ne False \<open>h = start\<close> bounds below
          by (simp add: addPooledString_iteration_def cs threeWay_zero threeWay_pos
              c_def [symmetric] h_def [symmetric])
      qed
    next
      case hs: False
      then have sh: "start < h" using h by auto
      have hl: "h < length table" using h bounds by auto
      show ?thesis
      proof (cases "c = content (table ! h)")
        case True
        then show ?thesis using ne hs hl
          by (simp add: addPooledString_iteration_def cs threeWay_zero
              c_def [symmetric] h_def [symmetric])
      next
        case neh: False
        show ?thesis
        proof (cases "content (table ! h) < c")
          case True
          have "\<forall>i<h. content (table ! i) < c"
            using strictlySorted_nth [OF sorted _ hl] True by (meson less_trans)
          then show ?thesis using ne hs neh True h bounds above
            by (simp add: addPooledString_iteration_def cs threeWay_zero threeWay_pos
                c_def [symmetric] h_def [symmetric])
        next
          case False
          then have lt: "c < content (table ! h)" using neh by auto
          have "\<forall>i. h \<le> i \<and> i < length table \<longrightarrow> c < content (table ! i)"
            using strictlySorted_nth_le [OF sorted] lt by (meson less_le_trans)
          then show ?thesis using ne hs neh False sh hl below
            by (simp add: addPooledString_iteration_def cs threeWay_zero threeWay_pos
                c_def [symmetric] h_def [symmetric])
        qed
      qed
    qed
  qed
qed

lemma loop_spec:
  assumes "strictlySorted table"
    and "start \<le> end" "end \<le> length table"
    and "\<forall>i. i < start \<longrightarrow> content (table ! i) < newContent n"
    and "\<forall>i. end \<le> i \<and> i < length table \<longrightarrow> newContent n < content (table ! i)"
  shows "case addPooledString_loop table n start end of
           Inl found \<Rightarrow> found \<in> set table \<and> content found = newContent n
         | Inr pos \<Rightarrow> pos \<le> length table
             \<and> (\<forall>i<pos. content (table ! i) < newContent n)
             \<and> (\<forall>i. pos \<le> i \<and> i < length table \<longrightarrow> newContent n < content (table ! i))"
  using assms
proof (induction table n start "end" rule: addPooledString_loop.induct)
  case (1 table n start "end")
  show ?case
  proof (cases "start < end")
    case False
    then have eq: "addPooledString_loop table n start end = Inr start"
      by (simp add: addPooledString_loop.simps [of table n start "end"])
    have "start = end" using False "1.prems" by simp
    then show ?thesis unfolding eq using "1.prems" by simp
  next
    case True
    note spec = iteration_spec [OF "1.prems"(1) True "1.prems"(3,4,5)]
    show ?thesis
    proof (cases "addPooledString_iteration table n start end")
      case (Return found)
      then show ?thesis using spec True
        by (simp add: addPooledString_loop.simps [of table n start "end"])
    next
      case (Break pos)
      then show ?thesis using spec True
        by (simp add: addPooledString_loop.simps [of table n start "end"])
    next
      case (Continue start' end')
      with spec have s: "start' < end'" "end' \<le> length table"
        "\<forall>i. i < start' \<longrightarrow> content (table ! i) < newContent n"
        "\<forall>i. end' \<le> i \<and> i < length table \<longrightarrow> newContent n < content (table ! i)"
        by simp_all
      have "start' \<le> end'" using s(1) by simp
      from "1.IH" [OF True Continue "1.prems"(1) this s(2,3,4)]
      show ?thesis using Continue True
        by (simp add: addPooledString_loop.simps [of table n start "end"])
    qed
  qed
qed

lemma search_spec:
  assumes "strictlySorted table"
  shows "case addPooledString_loop table n 0 (length table) of
           Inl found \<Rightarrow> found \<in> set table \<and> content found = newContent n
         | Inr pos \<Rightarrow> pos \<le> length table
             \<and> (\<forall>i<pos. content (table ! i) < newContent n)
             \<and> (\<forall>i. pos \<le> i \<and> i < length table \<longrightarrow> newContent n < content (table ! i))"
  by (rule loop_spec [OF assms]) auto

lemma strictlySorted_unique:
  assumes "strictlySorted table" "s \<in> set table" "s' \<in> set table" "content s = content s'"
  shows "s = s'"
proof -
  have "distinct (map content table)"
    using assms(1) by (simp add: strictlySorted_def strict_sorted_iff)
  then have "inj_on content (set table)" by (simp add: distinct_map)
  then show ?thesis using assms(2-4) by (auto dest: inj_onD)
qed

lemma Array_insert_append:
  "pos \<le> length xs \<Longrightarrow> Array_insert pos x xs = take pos xs @ x # drop pos xs"
  by (simp add: Array_insert_def)

lemma Array_insert_nth: "pos \<le> length xs \<Longrightarrow> Array_insert pos x xs ! pos = x"
  by (simp add: Array_insert_append nth_append)

lemma Array_insert_length: "length (Array_insert pos x xs) = Suc (length xs)"
  by (simp add: Array_insert_def)

lemma Array_insert_set: "set (Array_insert pos x xs) = insert x (set xs)"
proof (cases "pos < length xs")
  case True
  have "set (take pos xs) \<union> set (drop pos xs) = set xs"
    by (metis append_take_drop_id set_append)
  then show ?thesis using True by (auto simp: Array_insert_def)
next
  case False
  then show ?thesis by (simp add: Array_insert_def)
qed

lemma strictlySorted_insert:
  assumes sorted: "strictlySorted table"
    and pos: "pos \<le> length table"
    and below: "\<forall>i<pos. content (table ! i) < content x"
    and above: "\<forall>i. pos \<le> i \<and> i < length table \<longrightarrow> content x < content (table ! i)"
  shows "strictlySorted (Array_insert pos x table)"
proof -
  have tk: "\<forall>a\<in>set (take pos table). content a < content x"
  proof
    fix a assume "a \<in> set (take pos table)"
    then obtain i where "i < length (take pos table)" "a = take pos table ! i"
      by (auto simp: in_set_conv_nth)
    then show "content a < content x" using below by auto
  qed
  have dr: "\<forall>b\<in>set (drop pos table). content x < content b"
  proof
    fix b assume "b \<in> set (drop pos table)"
    then obtain i where i: "i < length (drop pos table)" "b = drop pos table ! i"
      by (auto simp: in_set_conv_nth)
    then have "b = table ! (pos + i)" "pos + i < length table" using pos by auto
    then show "content x < content b" using above by auto
  qed
  have s: "sorted_wrt (\<lambda>a b. content a < content b) table"
    using sorted by (simp add: strictlySorted_def sorted_wrt_map)
  have cross: "content a < content b"
    if "a \<in> set (take pos table)" "b \<in> set (drop pos table)" for a b
    using tk dr that less_trans [of "content a" "content x" "content b"] by blast
  have "sorted_wrt (\<lambda>a b. content a < content b) (take pos table @ x # drop pos table)"
    using tk dr cross sorted_wrt_take [OF s, of pos] sorted_wrt_drop [OF s, of pos]
    by (simp add: sorted_wrt_append)
  then show ?thesis
    unfolding strictlySorted_def sorted_wrt_map Array_insert_append [OF pos] .
qed

lemma content_toString: "content (toString h n) = newContent n"
  by (cases n)
     (auto simp: content_def emptyString_def isEmpty_no_content untilTerminator_beforeZeroByte
        untilTerminator_def [of "[]"])

text \<open>The two outcomes of a lookup or insertion on a sorted table.\<close>

lemma addPooledString_found:
  assumes "strictlySorted table" "e \<in> set table" "content e = newContent n"
  shows "addPooledString h table n = (table, e)"
proof (cases "addPooledString_loop table n 0 (length table)")
  case (Inl found)
  with search_spec [OF assms(1), of n] have "found \<in> set table" "content found = newContent n"
    by simp_all
  then have "found = e" using strictlySorted_unique [OF assms(1) _ assms(2)] assms(3) by simp
  then show ?thesis using Inl by (simp add: addPooledString_def)
next
  case (Inr pos)
  with search_spec [OF assms(1), of n]
  have p: "\<forall>i<pos. content (table ! i) < newContent n"
    "\<forall>i. pos \<le> i \<and> i < length table \<longrightarrow> newContent n < content (table ! i)"
    by simp_all
  from assms(2) obtain k where k: "k < length table" "e = table ! k"
    by (auto simp: in_set_conv_nth)
  have False
  proof (cases "k < pos")
    case True
    with p(1) have "content (table ! k) < newContent n" by blast
    then show False using k assms(3) by simp
  next
    case False
    with p(2) k(1) have "newContent n < content (table ! k)" by auto
    then show False using k assms(3) by simp
  qed
  then show ?thesis ..
qed

lemma addPooledString_missing:
  assumes "strictlySorted table" "newContent n \<notin> content ` set table"
  shows "\<exists>pos. addPooledString_loop table n 0 (length table) = Inr pos
           \<and> pos \<le> length table
           \<and> (\<forall>i<pos. content (table ! i) < newContent n)
           \<and> (\<forall>i. pos \<le> i \<and> i < length table \<longrightarrow> newContent n < content (table ! i))
           \<and> addPooledString h table n = (Array_insert pos (toString h n) table, toString h n)"
proof (cases "addPooledString_loop table n 0 (length table)")
  case (Inl found)
  with search_spec [OF assms(1), of n]
  have "found \<in> set table" "content found = newContent n" by simp_all
  then have "newContent n \<in> content ` set table" by (metis imageI)
  then show ?thesis using assms(2) by simp
next
  case (Inr pos)
  with search_spec [OF assms(1), of n] show ?thesis
    by (simp add: addPooledString_def Let_def Array_insert_nth)
qed

lemma addPooledString_spec:
  assumes "strictlySorted table" "addPooledString h table n = (table', e)"
  shows "strictlySorted table' \<and> e \<in> set table' \<and> content e = newContent n
         \<and> (table' = table \<or> e = toString h n \<and> set table' = insert e (set table)
               \<and> length table' = Suc (length table))"
proof (cases "newContent n \<in> content ` set table")
  case True
  then obtain s where "s \<in> set table" "content s = newContent n" by auto
  from addPooledString_found [OF assms(1) this, of h] assms(2) this assms(1)
  show ?thesis by auto
next
  case False
  from addPooledString_missing [OF assms(1) False, of h] assms(2)
  obtain pos where p: "pos \<le> length table"
    "\<forall>i<pos. content (table ! i) < newContent n"
    "\<forall>i. pos \<le> i \<and> i < length table \<longrightarrow> newContent n < content (table ! i)"
    "table' = Array_insert pos (toString h n) table" "e = toString h n"
    by auto
  have "strictlySorted table'"
    unfolding p(4) using p(1-3)
    by (intro strictlySorted_insert [OF assms(1)]) (simp_all add: content_toString)
  then show ?thesis using p
    by (simp add: content_toString Array_insert_set Array_insert_length)
qed

subsection \<open>Collection and the invariant\<close>

lemma garbageCollect_loop_filter:
  "k \<le> length xs \<Longrightarrow>
   garbageCollect_loop rc k xs = filter (\<lambda>s. rc (holder s) \<noteq> 1) (take k xs) @ drop k xs"
proof (induction k arbitrary: xs)
  case 0
  then show ?case by simp
next
  case (Suc k)
  then have k: "k < length xs" by simp
  have tk: "take (Suc k) xs = take k xs @ [xs ! k]"
    using k by (simp add: take_Suc_conv_app_nth)
  show ?case
  proof (cases "rc (holder (xs ! k)) = 1")
    case True
    have len: "k \<le> length (Array_remove k xs)"
      using k by (simp add: Array_remove_def)
    show ?thesis
      using True k Suc.IH [OF len] by (simp add: tk Array_remove_def)
  next
    case False
    have "drop k xs = xs ! k # drop (Suc k) xs"
      using k by (simp add: Cons_nth_drop_Suc)
    then show ?thesis
      using False k Suc.IH [of xs] by (simp add: tk)
  qed
qed

lemma strictlySorted_filter: "strictlySorted table \<Longrightarrow> strictlySorted (filter P table)"
  by (simp add: strictlySorted_def sorted_wrt_map sorted_wrt_filter)

lemma garbageCollect_strings:
  "strings (garbageCollect rc now pool) = filter (\<lambda>s. rc (holder s) \<noteq> 1) (strings pool)"
  by (simp add: garbageCollect_def garbageCollect_loop_filter)

lemma garbageCollect_sorted:
  "strictlySorted (strings pool) \<Longrightarrow> strictlySorted (strings (garbageCollect rc now pool))"
  by (simp add: garbageCollect_strings strictlySorted_filter)

lemma garbageCollectIfNeeded_sorted:
  "strictlySorted (strings pool) \<Longrightarrow> strictlySorted (strings (garbageCollectIfNeeded env pool))"
  by (simp add: garbageCollectIfNeeded_def garbageCollect_sorted)

lemma getPooledString_locked_sorted:
  assumes "strictlySorted (strings pool)"
  shows "strictlySorted (strings (snd (getPooledString_locked env pool n)))"
proof -
  obtain table' e where
    a: "addPooledString (allocatedHolder env) (strings (garbageCollectIfNeeded env pool)) n = (table', e)"
    by (cases "addPooledString (allocatedHolder env) (strings (garbageCollectIfNeeded env pool)) n")
  from addPooledString_spec [OF garbageCollectIfNeeded_sorted [OF assms] a]
  show ?thesis by (simp add: getPooledString_locked_def a)
qed

lemma getPooledString_sorted:
  assumes "strictlySorted (strings pool)"
  shows "strictlySorted (strings (snd (getPooledString env pool input)))"
proof (cases input)
  case (RawBuffer p)
  then show ?thesis using assms getPooledString_locked_sorted [OF assms]
    by (cases p) auto
qed (use assms getPooledString_locked_sorted [OF assms] in auto)

lemma perform_sorted:
  "strictlySorted (strings pool) \<Longrightarrow> strictlySorted (strings (perform pool op))"
  by (cases op) (simp_all add: getPooledString_sorted garbageCollect_sorted)

lemma foldl_perform_sorted:
  "strictlySorted (strings pool) \<Longrightarrow> strictlySorted (strings (foldl perform pool ops))"
  by (induction ops arbitrary: pool) (simp_all add: perform_sorted)

lemma run_sorted: "strictlySorted (strings (run ops))"
  unfolding run_def by (rule foldl_perform_sorted) (simp add: newStringPool_def strictlySorted_def)

lemma interval_guard_nat:
  "(t + garbageCollectionInterval < now) = ((unat t + 30000) mod 2 ^ 32 < unat now)"
  for t now :: "32 word"
  by (simp add: garbageCollectionInterval_def word_less_nat_alt unat_word_ariths)

lemma length_exampleTable: "length (exampleTable n) = n"
  by (simp add: exampleTable_def)

subsection \<open>The number of iterations\<close>

lemma iterations_bound_pow:
  "start < end \<Longrightarrow>
   2 ^ addPooledString_iterations table n start end \<le> max 2 (4 * (end - start) - 4)"
proof (induction table n start "end" rule: addPooledString_iterations.induct)
  case (1 table n start "end")
  show ?case
  proof (cases "addPooledString_iteration table n start end")
    case (Return x1)
    then show ?thesis using "1.prems"
      by (simp add: addPooledString_iterations.simps [of table n start "end"])
  next
    case (Break x2)
    then show ?thesis using "1.prems"
      by (simp add: addPooledString_iterations.simps [of table n start "end"])
  next
    case (Continue s' e')
    from iteration_Continue [OF Continue] "1.prems"
    have lt: "s' < e'" and sz: "2 * (e' - s') \<le> end - start + 1" "2 \<le> end - start" by auto
    have "2 ^ addPooledString_iterations table n s' e' \<le> max 2 (4 * (e' - s') - 4)"
      using "1.IH" [OF "1.prems" Continue lt] .
    moreover have "2 * max 2 (4 * (e' - s') - 4) \<le> max 2 (4 * (end - start) - 4)"
    proof -
      define d d' where "d = end - start" and "d' = e' - s'"
      have "2 * d' \<le> d + 1" "2 \<le> d" "0 < d'"
        using sz lt by (simp_all add: d_def d'_def)
      then have "2 * max 2 (4 * d' - 4) \<le> max 2 (4 * d - 4)"
        unfolding max_def by (cases "d' = 1") auto
      then show ?thesis unfolding d_def d'_def .
    qed
    ultimately show ?thesis using "1.prems" Continue
      by (simp add: addPooledString_iterations.simps [of table n start "end"])
  qed
qed

lemma iterations_bound_floorlog:
  "addPooledString_iterations table n start end \<le> floorlog 2 (end - start) + 1"
proof (cases "start < end")
  case False
  then show ?thesis by (simp add: addPooledString_iterations.simps [of table n start "end"])
next
  case True
  define d where "d = end - start"
  define k where "k = addPooledString_iterations table n start end"
  have d: "0 < d" using True by (simp add: d_def)
  have "d < 2 ^ floorlog 2 d" using floorlog_bounds [of d 2] d by simp
  then have "4 * d \<le> 4 * 2 ^ floorlog 2 d" by simp
  moreover have "max 2 (4 * d - 4) < 4 * d" using d by (auto simp: max_def)
  moreover have "2 ^ k \<le> max 2 (4 * d - 4)"
    using iterations_bound_pow [OF True, of table n] by (simp add: d_def k_def)
  ultimately have "(2::nat) ^ k < 4 * 2 ^ floorlog 2 d" by linarith
  then have "(2::nat) ^ k < 2 ^ (floorlog 2 d + 2)" by (simp add: power_add)
  then have "k < floorlog 2 d + 2" by (rule power_less_imp_less_exp [rotated]) simp
  then show ?thesis by (simp add: d_def k_def)
qed

subsection \<open>Interning calls and the entries they keep\<close>

lemma newContent_asNewString: "newContent (asNewString input) = inputContent input"
  by (cases input rule: asNewString.cases) (simp_all add: untilTerminator_def)

lemma getPooledString_unfold:
  "getPooledString env pool input =
     (if inputCharacters input = [] then (emptyString, pool)
      else getPooledString_locked env pool (asNewString input))"
  by (cases input rule: asNewString.cases)
     (auto simp: isEmpty_iff pointsAtZeroByte_iff beforeZeroByte_def [of "[]"])

lemma garbageCollectIfNeeded_due:
  "garbageCollectIfNeeded env pool =
     (if collectionDue env pool
      then garbageCollect (getReferenceCount env) (millisecondCounterAfterScan env) pool
      else pool)"
  by (simp add: garbageCollectIfNeeded_def collectionDue_def)

lemma garbageCollectIfNeeded_keeps:
  "e \<in> set (strings pool) \<Longrightarrow>
   \<not> collectionDue env pool \<or> getReferenceCount env (holder e) \<noteq> 1 \<Longrightarrow>
   e \<in> set (strings (garbageCollectIfNeeded env pool))"
  by (auto simp: garbageCollectIfNeeded_due garbageCollect_strings)

lemma garbageCollectIfNeeded_length:
  "length (strings (garbageCollectIfNeeded env pool)) \<le> length (strings pool)"
  by (simp add: garbageCollectIfNeeded_def garbageCollect_strings)

lemma getPooledString_locked_result:
  assumes "strictlySorted (strings pool)"
    and "getPooledString_locked env pool n = (e, pool')"
  shows "e \<in> set (strings pool') \<and> content e = newContent n
         \<and> set (strings (garbageCollectIfNeeded env pool)) \<subseteq> set (strings pool')
         \<and> length (strings pool') \<le> Suc (length (strings pool))"
proof -
  obtain table' r where
    a: "addPooledString (allocatedHolder env) (strings (garbageCollectIfNeeded env pool)) n
          = (table', r)"
    by (cases "addPooledString (allocatedHolder env) (strings (garbageCollectIfNeeded env pool)) n")
  from assms(2) a have e: "e = r" and p: "strings pool' = table'"
    by (auto simp: getPooledString_locked_def)
  from addPooledString_spec [OF garbageCollectIfNeeded_sorted [OF assms(1)] a]
    garbageCollectIfNeeded_length [of env pool]
  show ?thesis unfolding e p by auto
qed

lemma getPooledString_locked_found:
  assumes "strictlySorted (strings pool)"
    and "e \<in> set (strings (garbageCollectIfNeeded env pool))"
    and "content e = newContent n"
  shows "getPooledString_locked env pool n = (e, garbageCollectIfNeeded env pool)"
  using addPooledString_found [OF garbageCollectIfNeeded_sorted [OF assms(1)] assms(2,3)]
  by (simp add: getPooledString_locked_def)

lemma getPooledString_keeps:
  assumes "strictlySorted (strings pool)" "e \<in> set (strings pool)"
    "spares e pool (Intern env input)"
  shows "e \<in> set (strings (snd (getPooledString env pool input)))"
proof (cases "inputCharacters input = []")
  case True
  then show ?thesis using assms(2) by (simp add: getPooledString_unfold)
next
  case False
  obtain r pool' where l: "getPooledString_locked env pool (asNewString input) = (r, pool')"
    by (cases "getPooledString_locked env pool (asNewString input)")
  have "e \<in> set (strings (garbageCollectIfNeeded env pool))"
    using assms(3) False by (intro garbageCollectIfNeeded_keeps [OF assms(2)]) simp
  with getPooledString_locked_result [OF assms(1) l]
  show ?thesis using False l by (auto simp: getPooledString_unfold)
qed

lemma perform_keeps:
  assumes "strictlySorted (strings pool)" "e \<in> set (strings pool)" "spares e pool op"
  shows "e \<in> set (strings (perform pool op))"
proof (cases op)
  case (Intern env input)
  then show ?thesis using getPooledString_keeps [OF assms(1,2)] assms(3) by simp
next
  case (GarbageCollect rc now)
  then show ?thesis using assms(2,3) by (simp add: garbageCollect_strings)
qed

lemma foldl_perform_keeps:
  "strictlySorted (strings pool) \<Longrightarrow> e \<in> set (strings pool) \<Longrightarrow>
   notCollected e pool ops \<Longrightarrow> e \<in> set (strings (foldl perform pool ops))"
proof (induction ops arbitrary: pool)
  case Nil
  then show ?case by simp
next
  case (Cons op ops)
  have "e \<in> set (strings (perform pool op))"
    using perform_keeps [OF Cons.prems(1,2)] Cons.prems(3) by simp
  from Cons.IH [OF perform_sorted [OF Cons.prems(1)] this] Cons.prems(3)
  show ?case by simp
qed

lemma notCollected_append:
  "notCollected e pool (ops @ ops') \<longleftrightarrow>
     notCollected e pool ops \<and> notCollected e (foldl perform pool ops) ops'"
  by (induction ops arbitrary: pool) auto

subsection \<open>The insertion index\<close>

lemma insertion_index_count:
  assumes "pos \<le> length table"
    and below: "\<forall>i<pos. content (table ! i) < c"
    and above: "\<forall>i. pos \<le> i \<and> i < length table \<longrightarrow> c < content (table ! i)"
  shows "pos = length (filter (\<lambda>s. content s < c) table)"
proof -
  have tk: "\<forall>a\<in>set (take pos table). content a < c"
  proof
    fix a assume "a \<in> set (take pos table)"
    then obtain i where "i < length (take pos table)" "a = take pos table ! i"
      by (auto simp: in_set_conv_nth)
    then show "content a < c" using below by auto
  qed
  have dr: "\<forall>b\<in>set (drop pos table). \<not> content b < c"
  proof
    fix b assume "b \<in> set (drop pos table)"
    then obtain i where i: "i < length (drop pos table)" "b = drop pos table ! i"
      by (auto simp: in_set_conv_nth)
    then have "b = table ! (pos + i)" "pos + i < length table" using assms(1) by auto
    then have "c < content b" using above by auto
    then show "\<not> content b < c" by simp
  qed
  have "filter (\<lambda>s. content s < c) (take pos table @ drop pos table) = take pos table"
    unfolding filter_append using tk dr by (simp add: filter_id_conv filter_empty_conv)
  then have "filter (\<lambda>s. content s < c) table = take pos table" by simp
  then show ?thesis using assms(1) by simp
qed

lemma insertion_index_unique:
  assumes pos: "pos \<le> length table"
    and below: "\<forall>i<pos. content (table ! i) < content x"
    and above: "\<forall>i. pos \<le> i \<and> i < length table \<longrightarrow> content x < content (table ! i)"
    and k: "k \<le> length table"
    and sorted: "strictlySorted (Array_insert k x table)"
  shows "k = pos"
proof (rule ccontr)
  assume ne: "k \<noteq> pos"
  define ys where "ys = Array_insert k x table"
  have ys: "ys = take k table @ x # drop k table"
    using k by (simp add: ys_def Array_insert_append)
  have len: "length ys = Suc (length table)" by (simp add: ys_def Array_insert_length)
  have at_k: "ys ! k = x" using k by (simp add: ys nth_append)
  show False
  proof (cases "k < pos")
    case True
    then have kl: "k < length table" using pos by simp
    have "ys ! Suc k = table ! k" using kl by (simp add: ys nth_append)
    moreover have "content (ys ! k) < content (ys ! Suc k)"
      using strictlySorted_nth [OF sorted [folded ys_def], of k "Suc k"] kl len by simp
    ultimately have "content x < content (table ! k)" using at_k by simp
    moreover have "content (table ! k) < content x" using below True by simp
    ultimately show False by simp
  next
    case False
    then have gt: "pos < k" using ne by simp
    then obtain j where j: "k = Suc j" by (cases k) auto
    have jl: "j < length table" "pos \<le> j" using k gt j by auto
    have "ys ! j = table ! j" using jl j by (simp add: ys nth_append)
    moreover have "content (ys ! j) < content (ys ! k)"
      using strictlySorted_nth [OF sorted [folded ys_def], of j k] j k len by simp
    ultimately have "content (table ! j) < content x" using at_k by simp
    moreover have "content x < content (table ! j)" using above jl by simp
    ultimately show False by simp
  qed
qed

lemma untilTerminator_no_zero:
  "0 \<notin> codePoint ` set r \<Longrightarrow> untilTerminator r = map codePoint r"
  unfolding untilTerminator_def by (rule takeWhile_eq_all_conv [THEN iffD2]) auto

subsection \<open>The example table\<close>

lemma strictlySorted_exampleTable: "strictlySorted (exampleTable n)"
proof -
  have "sorted_wrt (<) (map (\<lambda>k. [Suc k]) [0..<n])"
    by (simp add: sorted_wrt_map sorted_wrt_iff_nth_less)
  moreover have "map content (exampleTable n) = map (\<lambda>k. [Suc k]) [0..<n]"
    by (simp add: exampleTable_def content_def untilTerminator_def)
  ultimately show ?thesis by (simp add: strictlySorted_def)
qed

lemma content_exampleTable: "content ` set (exampleTable n) = (\<lambda>k. [Suc k]) ` {0..<n}"
  by (auto simp: exampleTable_def content_def untilTerminator_def image_image)

lemma intern_before_interval_example:
  "fst (getPooledString (unreferencedEnvironment 20000 1000) (examplePool 301 0) (RawBuffer (Some [Encoded 400])))
     = \<lparr>holder = 1000, getCharPointer = [Encoded 400]\<rparr>
   \<and> length (strings (snd (getPooledString (unreferencedEnvironment 20000 1000) (examplePool 301 0) (RawBuffer (Some [Encoded 400]))))) = 302
   \<and> lastGarbageCollectionTime (snd (getPooledString (unreferencedEnvironment 20000 1000) (examplePool 301 0) (RawBuffer (Some [Encoded 400])))) = 0"
proof -
  have g: "garbageCollectIfNeeded (unreferencedEnvironment 20000 1000) (examplePool 301 0) = examplePool 301 0"
    by (simp add: garbageCollectIfNeeded_def examplePool_def unreferencedEnvironment_def
        garbageCollectionInterval_def)
  have m: "newContent (NewCharPointer_UTF8 [Encoded 400]) \<notin> content ` set (exampleTable 301)"
    by (auto simp: content_exampleTable untilTerminator_def)
  from addPooledString_missing [OF strictlySorted_exampleTable m, of 1000]
  obtain pos where "addPooledString 1000 (exampleTable 301) (NewCharPointer_UTF8 [Encoded 400])
      = (Array_insert pos (toString 1000 (NewCharPointer_UTF8 [Encoded 400])) (exampleTable 301),
         toString 1000 (NewCharPointer_UTF8 [Encoded 400]))"
    by blast
  then show ?thesis using g
    by (simp add: getPooledString_locked_def examplePool_def unreferencedEnvironment_def
        Array_insert_length length_exampleTable beforeZeroByte_def untilTerminator_def)
qed

lemma intern_after_interval_example:
  assumes "length (strings pool) = 302" "lastGarbageCollectionTime pool = 0"
  shows "getPooledString (unreferencedEnvironment 60000 2000) pool (Ref [Encoded 400])
     = (\<lparr>holder = 2000, getCharPointer = [Encoded 400]\<rparr>,
        \<lparr>strings = [\<lparr>holder = 2000, getCharPointer = [Encoded 400]\<rparr>],
         lastGarbageCollectionTime = 60000\<rparr>)"
proof -
  have g: "garbageCollectIfNeeded (unreferencedEnvironment 60000 2000) pool
             = \<lparr>strings = [], lastGarbageCollectionTime = 60000\<rparr>"
    using assms
    by (simp add: garbageCollectIfNeeded_def garbageCollect_def garbageCollect_loop_filter
        unreferencedEnvironment_def garbageCollectionInterval_def
        minNumberOfStringsForGarbageCollection_def)
  have a: "addPooledString 2000 [] (NewCharPointer_UTF8 [Encoded 400])
             = ([\<lparr>holder = 2000, getCharPointer = [Encoded 400]\<rparr>], \<lparr>holder = 2000, getCharPointer = [Encoded 400]\<rparr>)"
    by (simp add: addPooledString_def addPooledString_loop.simps Array_insert_def beforeZeroByte_def
        untilTerminator_def)
  show ?thesis using g a
    by (simp add: getPooledString_locked_def beforeZeroByte_def unreferencedEnvironment_def)
qed

lemma exampleTable_Suc:
  "exampleTable (Suc n) = exampleTable n @ [\<lparr>holder = Suc n, getCharPointer = [Encoded (Suc n)]\<rparr>]"
  by (simp add: exampleTable_def)

lemma addPooledString_exampleTable:
  "addPooledString (Suc n) (exampleTable n) (NewCharPointer_UTF8 [Encoded (Suc n)])
     = (exampleTable (Suc n), \<lparr>holder = Suc n, getCharPointer = [Encoded (Suc n)]\<rparr>)"
proof -
  have m: "newContent (NewCharPointer_UTF8 [Encoded (Suc n)]) \<notin> content ` set (exampleTable n)"
    by (auto simp: content_exampleTable untilTerminator_def)
  from addPooledString_missing [OF strictlySorted_exampleTable m, of "Suc n"]
  obtain pos where p: "pos \<le> length (exampleTable n)"
    "\<forall>i. pos \<le> i \<and> i < length (exampleTable n) \<longrightarrow>
       newContent (NewCharPointer_UTF8 [Encoded (Suc n)]) < content (exampleTable n ! i)"
    "addPooledString (Suc n) (exampleTable n) (NewCharPointer_UTF8 [Encoded (Suc n)])
       = (Array_insert pos (toString (Suc n) (NewCharPointer_UTF8 [Encoded (Suc n)])) (exampleTable n),
          toString (Suc n) (NewCharPointer_UTF8 [Encoded (Suc n)]))"
    by blast
  have "pos = n"
  proof (rule ccontr)
    assume "pos \<noteq> n"
    then have "pos < n" using p(1) by (simp add: length_exampleTable)
    with p(2) have "newContent (NewCharPointer_UTF8 [Encoded (Suc n)]) < content (exampleTable n ! pos)"
      by (simp add: length_exampleTable)
    then show False using \<open>pos < n\<close>
      by (simp add: exampleTable_def content_def untilTerminator_def)
  qed
  then show ?thesis using p(3)
    by (simp add: Array_insert_def length_exampleTable exampleTable_Suc beforeZeroByte_def
        untilTerminator_def)
qed

lemma examplePool_reachable: "n \<le> 301 \<Longrightarrow> run (exampleInterns n) = examplePool n 0"
proof (induction n)
  case 0
  show ?case by (simp add: run_def exampleInterns_def examplePool_def exampleTable_def newStringPool_def)
next
  case (Suc n)
  then have IH: "run (exampleInterns n) = examplePool n 0" and n: "n \<le> 300" by simp_all
  have g: "garbageCollectIfNeeded (unreferencedEnvironment 40000 (Suc n)) (examplePool n 0)
             = examplePool n 0"
    using n by (simp add: garbageCollectIfNeeded_def examplePool_def length_exampleTable
        minNumberOfStringsForGarbageCollection_def)
  have "run (exampleInterns (Suc n))
          = perform (run (exampleInterns n))
              (Intern (unreferencedEnvironment 40000 (Suc n)) (Ref [Encoded (Suc n)]))"
    by (simp add: run_def exampleInterns_def)
  also have "\<dots> = examplePool (Suc n) 0"
    using g addPooledString_exampleTable [of n]
    by (simp add: IH getPooledString_locked_def beforeZeroByte_def)
       (simp add: examplePool_def unreferencedEnvironment_def)
  finally show ?case .
qed

lemma getPooledString_zero_character_example:
  "inputCharacters (RawBuffer (Some [Encoded 0, Encoded 97])) = [Encoded 0, Encoded 97]
   \<and> inputContent (RawBuffer (Some [Encoded 0, Encoded 97])) = []
   \<and> getPooledString (quietEnvironment 7) newStringPool (RawBuffer (Some [Encoded 0, Encoded 97]))
       = (\<lparr>holder = 7, getCharPointer = [Encoded 0, Encoded 97]\<rparr>,
          \<lparr>strings = [\<lparr>holder = 7, getCharPointer = [Encoded 0, Encoded 97]\<rparr>],
           lastGarbageCollectionTime = 0\<rparr>)"
  by code_simp

subsection \<open>The interval guard on the counter\<close>

lemma interval_guard_within_one_period:
  fixes t now :: "32 word"
  assumes wraps: "2 ^ 32 \<le> unat t + 30000"
    and off: "\<not> (t + garbageCollectionInterval < now)"
  shows "unat (now - t) \<le> 30000"
proof -
  have t: "unat t < 2 ^ 32" using unsigned_less [of t] by simp
  then have "(unat t + 30000) mod 2 ^ 32 = unat t + 30000 - 2 ^ 32"
    using wraps by (simp add: mod_if)
  with off have n: "unat now \<le> unat t + 30000 - 2 ^ 32"
    by (simp add: interval_guard_nat)
  then have "unat now < unat t" using wraps t by simp
  then have "unat (now - t) = unat now + 2 ^ 32 - unat t"
    by (simp add: unat_sub_if_size word_size)
  then show ?thesis using n wraps by simp
qed

lemma unat_counter_difference:
  assumes "tLast \<le> tNow" "tNow - tLast < 2 ^ 32"
  shows "unat ((of_nat tNow :: 32 word) - of_nat tLast) = tNow - tLast"
proof -
  have "(of_nat tNow :: 32 word) - of_nat tLast = of_nat (tNow - tLast)"
    using assms(1) by (simp add: of_nat_diff)
  then show ?thesis using assms(2) by (simp add: unat_of_nat take_bit_nat_eq_self)
qed

lemma garbageCollect_examplePool:
  "garbageCollect (getReferenceCount (unreferencedEnvironment c h)) now (examplePool n t)
     = \<lparr>strings = [], lastGarbageCollectionTime = now\<rparr>"
  by (simp add: garbageCollect_def garbageCollect_loop_filter examplePool_def
      unreferencedEnvironment_def)

section \<open>The claims\<close>

subsection \<open>C1: equal content, same entry\<close>

text \<open>
  C1, as the claim states it for every sequence of interning calls, fails once a collection
  comes in between. The pool below holds 301 entries that nobody references any more; it
  is reached from a new pool by 301 interning calls (\<open>examplePool_reachable\<close>). A first
  call interns the one-character string 400 at counter 20000: no collection is due, the
  entry gets holder 1000 and the table has 302 entries. The handle is dropped. A second call
  with the same content (through another overload) at counter 60000 finds a collection
  due: the pass removes all 302 entries, and the call inserts and returns a new entry, with
  holder 2000. The two calls return different entries and the second changes the table.
\<close>

theorem getPooledString_after_collection_counterexample:
  "inputContent (Ref [Encoded 400]) = inputContent (RawBuffer (Some [Encoded 400]))
   \<and> fst (getPooledString (unreferencedEnvironment 20000 1000) (examplePool 301 0)
           (RawBuffer (Some [Encoded 400])))
       = \<lparr>holder = 1000, getCharPointer = [Encoded 400]\<rparr>
   \<and> length (strings (snd (getPooledString (unreferencedEnvironment 20000 1000)
           (examplePool 301 0) (RawBuffer (Some [Encoded 400]))))) = 302
   \<and> fst (getPooledString (unreferencedEnvironment 60000 2000)
           (snd (getPooledString (unreferencedEnvironment 20000 1000) (examplePool 301 0)
                  (RawBuffer (Some [Encoded 400]))))
           (Ref [Encoded 400]))
       = \<lparr>holder = 2000, getCharPointer = [Encoded 400]\<rparr>
   \<and> length (strings (snd (getPooledString (unreferencedEnvironment 60000 2000)
           (snd (getPooledString (unreferencedEnvironment 20000 1000) (examplePool 301 0)
                  (RawBuffer (Some [Encoded 400]))))
           (Ref [Encoded 400])))) = 1"
  using intern_before_interval_example
    intern_after_interval_example [of "snd (getPooledString (unreferencedEnvironment 20000 1000)
      (examplePool 301 0) (RawBuffer (Some [Encoded 400])))"]
  by (simp add: untilTerminator_def)

text \<open>
  C1, amended. On a strictly sorted table (the invariant of C2) a call grows the table by
  at most one entry. For a null or empty argument it returns the shared empty string and
  leaves the pool alone, and so does every later call with a null or empty argument. For
  an argument that is not empty the returned entry \<open>e\<close> is in the table, and a later call
  with a non-empty argument of equal content, through any of the four overloads, returns
  \<open>e\<close> and inserts nothing whenever \<open>e\<close> is still in the table after the collection check
  of that call: the pool it leaves is the pool its collection check left. That is so, in
  particular, when no operation in between and not the call itself ran a pass while the
  reference count of \<open>e\<close> was \<open>1\<close>; no outside handle is needed while no pass runs. When
  moreover the collection check of the call changes nothing, the call leaves the whole
  pool, the size of the table included, as it was.

  The two arguments have to agree on being empty: an argument whose first character
  decodes to \<open>0\<close> from bytes that are not zero has no content and is not empty; it is looked
  up and stored like any other (\<open>getPooledString_zero_character_example\<close>).
\<close>

theorem getPooledString_same_entry:
  assumes sorted: "strictlySorted (strings pool)"
    and first: "getPooledString env pool x = (e, pool1)"
    and same: "inputContent y = inputContent x"
    and empty: "(inputCharacters y = []) = (inputCharacters x = [])"
  shows "length (strings pool1) \<le> Suc (length (strings pool))
    \<and> (inputCharacters x = [] \<longrightarrow>
          e = emptyString \<and> pool1 = pool
          \<and> getPooledString env2 (foldl perform pool1 ops) y = (e, foldl perform pool1 ops))
    \<and> (inputCharacters x \<noteq> [] \<longrightarrow>
          e \<in> set (strings pool1)
          \<and> (e \<in> set (strings (garbageCollectIfNeeded env2 (foldl perform pool1 ops))) \<longrightarrow>
                getPooledString env2 (foldl perform pool1 ops) y
                  = (e, garbageCollectIfNeeded env2 (foldl perform pool1 ops)))
          \<and> (notCollected e pool1 (ops @ [Intern env2 y]) \<longrightarrow>
                getPooledString env2 (foldl perform pool1 ops) y
                  = (e, garbageCollectIfNeeded env2 (foldl perform pool1 ops)))
          \<and> (notCollected e pool1 ops
               \<and> garbageCollectIfNeeded env2 (foldl perform pool1 ops) = foldl perform pool1 ops
               \<longrightarrow> getPooledString env2 (foldl perform pool1 ops) y
                     = (e, foldl perform pool1 ops)))"
proof (cases "inputCharacters x = []")
  case True
  then have "e = emptyString" "pool1 = pool"
    using first by (simp_all add: getPooledString_unfold)
  then show ?thesis using True empty by (simp add: getPooledString_unfold)
next
  case False
  define pool2 where "pool2 = foldl perform pool1 ops"
  from first False have l: "getPooledString_locked env pool (asNewString x) = (e, pool1)"
    by (simp add: getPooledString_unfold)
  note r = getPooledString_locked_result [OF sorted l]
  have s1: "strictlySorted (strings pool1)"
    using getPooledString_sorted [OF sorted, of env x] first by simp
  have s2: "strictlySorted (strings pool2)"
    unfolding pool2_def by (rule foldl_perform_sorted [OF s1])
  have c: "content e = newContent (asNewString y)"
    using r same by (simp add: newContent_asNewString)
  have ny: "inputCharacters y \<noteq> []" using False empty by simp
  have found: "getPooledString env2 pool2 y = (e, garbageCollectIfNeeded env2 pool2)"
    if "e \<in> set (strings (garbageCollectIfNeeded env2 pool2))"
    using getPooledString_locked_found [OF s2 that c] ny by (simp add: getPooledString_unfold)
  have kept: "e \<in> set (strings pool2)" if "notCollected e pool1 ops"
    unfolding pool2_def using foldl_perform_keeps [OF s1 _ that] r by simp
  have a: "getPooledString env2 pool2 y = (e, garbageCollectIfNeeded env2 pool2)"
    if "notCollected e pool1 (ops @ [Intern env2 y])"
  proof -
    from that have n: "notCollected e pool1 ops" and sp: "spares e pool2 (Intern env2 y)"
      by (simp_all add: notCollected_append pool2_def)
    from sp ny have "\<not> collectionDue env2 pool2 \<or> getReferenceCount env2 (holder e) \<noteq> 1"
      by simp
    from garbageCollectIfNeeded_keeps [OF kept [OF n] this] show ?thesis by (rule found)
  qed
  have b: "getPooledString env2 pool2 y = (e, pool2)"
    if "notCollected e pool1 ops" "garbageCollectIfNeeded env2 pool2 = pool2"
    using found kept [OF that(1)] that(2) by simp
  show ?thesis using False r found a b unfolding pool2_def by blast
qed

theorem getPooledString_same_entry_witness:
  "strictlySorted (strings newStringPool)
   \<and> getPooledString (unreferencedEnvironment 70000 1) newStringPool (RawBuffer (Some foo))
       = (\<lparr>holder = 1, getCharPointer = foo\<rparr>,
          \<lparr>strings = [\<lparr>holder = 1, getCharPointer = foo\<rparr>], lastGarbageCollectionTime = 0\<rparr>)
   \<and> inputContent (StartEnd foo) = inputContent (RawBuffer (Some foo))
   \<and> inputCharacters (StartEnd foo) \<noteq> [] \<and> inputCharacters (RawBuffer (Some foo)) \<noteq> []
   \<and> notCollected \<lparr>holder = 1, getCharPointer = foo\<rparr>
         \<lparr>strings = [\<lparr>holder = 1, getCharPointer = foo\<rparr>], lastGarbageCollectionTime = 0\<rparr>
         [Intern (unreferencedEnvironment 80000 2) (Ref bar),
          Intern (unreferencedEnvironment 90000 3) (StartEnd foo)]
   \<and> foldl perform
         \<lparr>strings = [\<lparr>holder = 1, getCharPointer = foo\<rparr>], lastGarbageCollectionTime = 0\<rparr>
         [Intern (unreferencedEnvironment 80000 2) (Ref bar)]
       = \<lparr>strings = [\<lparr>holder = 2, getCharPointer = bar\<rparr>, \<lparr>holder = 1, getCharPointer = foo\<rparr>],
          lastGarbageCollectionTime = 0\<rparr>
   \<and> getPooledString (unreferencedEnvironment 90000 3)
         \<lparr>strings = [\<lparr>holder = 2, getCharPointer = bar\<rparr>, \<lparr>holder = 1, getCharPointer = foo\<rparr>],
          lastGarbageCollectionTime = 0\<rparr>
         (StartEnd foo)
       = (\<lparr>holder = 1, getCharPointer = foo\<rparr>,
          \<lparr>strings = [\<lparr>holder = 2, getCharPointer = bar\<rparr>, \<lparr>holder = 1, getCharPointer = foo\<rparr>],
           lastGarbageCollectionTime = 0\<rparr>)
   \<and> inputCharacters (Owned emptyString) = [] \<and> inputCharacters (RawBuffer None) = []
   \<and> inputContent (RawBuffer None) = inputContent (Owned emptyString)
   \<and> getPooledString (unreferencedEnvironment 70000 1) newStringPool (Owned emptyString)
       = (emptyString, newStringPool)
   \<and> getPooledString (unreferencedEnvironment 90000 3)
         (foldl perform newStringPool [Intern (unreferencedEnvironment 80000 2) (Ref bar)])
         (RawBuffer None)
       = (emptyString,
          foldl perform newStringPool [Intern (unreferencedEnvironment 80000 2) (Ref bar)])"
proof -
  define fooEntry where "fooEntry = \<lparr>holder = 1, getCharPointer = foo\<rparr>"
  define barEntry where "barEntry = \<lparr>holder = 2, getCharPointer = bar\<rparr>"
  define pool1 where "pool1 = \<lparr>strings = [fooEntry], lastGarbageCollectionTime = 0\<rparr>"
  define pool2 where "pool2 = \<lparr>strings = [barEntry, fooEntry], lastGarbageCollectionTime = 0\<rparr>"
  define ops where "ops = [Intern (unreferencedEnvironment 80000 2) (Ref bar)]"
  have s: "strictlySorted (strings newStringPool)"
    by (simp add: newStringPool_def strictlySorted_def)
  have f: "getPooledString (unreferencedEnvironment 70000 1) newStringPool (RawBuffer (Some foo))
             = (fooEntry, pool1)"
    unfolding fooEntry_def pool1_def by code_simp
  have c: "inputContent (StartEnd foo) = inputContent (RawBuffer (Some foo))"
    by simp
  have ne: "inputCharacters (StartEnd foo) \<noteq> []" "inputCharacters (RawBuffer (Some foo)) \<noteq> []"
    by (simp_all add: foo_def beforeZeroByte_def)
  then have em: "(inputCharacters (StartEnd foo) = []) = (inputCharacters (RawBuffer (Some foo)) = [])"
    by simp
  have t: "foldl perform pool1 ops = pool2"
    unfolding fooEntry_def barEntry_def pool1_def pool2_def ops_def by code_simp
  have n: "notCollected fooEntry pool1 (ops @ [Intern (unreferencedEnvironment 90000 3) (StartEnd foo)])"
    unfolding fooEntry_def pool1_def ops_def by code_simp
  have g: "garbageCollectIfNeeded (unreferencedEnvironment 90000 3) pool2 = pool2"
    by (simp add: garbageCollectIfNeeded_def pool2_def minNumberOfStringsForGarbageCollection_def)
  from getPooledString_same_entry [OF s f c em, of "unreferencedEnvironment 90000 3" ops] ne n
  have "getPooledString (unreferencedEnvironment 90000 3) (foldl perform pool1 ops) (StartEnd foo)
          = (fooEntry, garbageCollectIfNeeded (unreferencedEnvironment 90000 3) (foldl perform pool1 ops))"
    by blast
  then have again: "getPooledString (unreferencedEnvironment 90000 3) pool2 (StartEnd foo)
          = (fooEntry, pool2)"
    by (simp add: t g)
  have e0: "inputCharacters (Owned emptyString) = []" "inputCharacters (RawBuffer None) = []"
    "inputContent (RawBuffer None) = inputContent (Owned emptyString)"
    by (simp_all add: emptyString_def beforeZeroByte_def content_def untilTerminator_def)
  have f0: "getPooledString (unreferencedEnvironment 70000 1) newStringPool (Owned emptyString)
              = (emptyString, newStringPool)"
    by (simp add: emptyString_def)
  from getPooledString_same_entry [OF s f0 e0(3), of "unreferencedEnvironment 90000 3" ops] e0(1,2)
  have again0: "getPooledString (unreferencedEnvironment 90000 3) (foldl perform newStringPool ops)
         (RawBuffer None) = (emptyString, foldl perform newStringPool ops)"
    by simp
  show ?thesis
    using s f c ne n t again e0 f0 again0
    unfolding fooEntry_def barEntry_def pool1_def pool2_def ops_def by simp
qed

subsection \<open>C2: the table stays strictly sorted\<close>

text \<open>
  C2. Starting from the freshly constructed pool, after any sequence of interning calls
  (of any overload, in any environment) and explicit collections, the contents of the
  table are strictly increasing in the lexicographic order: entry \<open>i\<close> is less than entry
  \<open>j\<close> whenever \<open>i < j\<close>. Hence no two entries have the same content.
\<close>

theorem pool_table_strictly_sorted:
  "(\<forall>i j. i < j \<and> j < length (strings (run ops)) \<longrightarrow>
       content (strings (run ops) ! i) < content (strings (run ops) ! j))
   \<and> distinct (map content (strings (run ops)))"
proof -
  have s: "strictlySorted (strings (run ops))" by (rule run_sorted)
  then have "distinct (map content (strings (run ops)))"
    by (simp add: strictlySorted_def strict_sorted_iff)
  then show ?thesis using strictlySorted_nth [OF s] by blast
qed

theorem pool_table_strictly_sorted_witness:
  "strings (run exampleOperations)
     = [\<lparr>holder = 2, getCharPointer = bar\<rparr>, \<lparr>holder = 1, getCharPointer = foo\<rparr>]
   \<and> content (strings (run exampleOperations) ! 0) < content (strings (run exampleOperations) ! 1)
   \<and> distinct (map content (strings (run exampleOperations)))"
proof -
  have eq: "strings (run exampleOperations)
     = [\<lparr>holder = 2, getCharPointer = bar\<rparr>, \<lparr>holder = 1, getCharPointer = foo\<rparr>]"
    by code_simp
  then have "(0::nat) < 1 \<and> 1 < length (strings (run exampleOperations))" by simp
  with pool_table_strictly_sorted [of exampleOperations] eq show ?thesis by blast
qed

subsection \<open>C3: what a collection removes\<close>

text \<open>
  C3. A pass of \<^verbatim>\<open>garbageCollect\<close> leaves exactly the entries whose reference count is not
  \<open>1\<close>, in their order: every entry with an outside handle stays, every entry that only the
  pool holds is removed, whatever the index shifts of the backward scan. Afterwards the
  timestamp is the counter value read after the scan, however many entries were removed.
\<close>

theorem garbageCollect_removes_exactly_unreferenced:
  "strings (garbageCollect referenceCount now pool)
     = filter (\<lambda>s. referenceCount (holder s) \<noteq> 1) (strings pool)
   \<and> lastGarbageCollectionTime (garbageCollect referenceCount now pool) = now"
  by (simp add: garbageCollect_def garbageCollect_loop_filter)

subsection \<open>C4: when the check collects\<close>

text \<open>
  C4, as the claim states it, fails at its boundary: with 301 entries, the last collection
  at counter \<open>0\<close> and the counter at exactly \<open>30000\<close>, the check leaves the pool alone,
  although a pass would have emptied this table. The guard is the strict \<^verbatim>\<open>>\<close>.
\<close>

theorem garbageCollectIfNeeded_exact_interval_counterexample:
  "length (strings (examplePool 301 0)) = 301
   \<and> millisecondCounter (unreferencedEnvironment 30000 0)
       = lastGarbageCollectionTime (examplePool 301 0) + 30000
   \<and> garbageCollectIfNeeded (unreferencedEnvironment 30000 0) (examplePool 301 0)
       = examplePool 301 0
   \<and> garbageCollect (getReferenceCount (unreferencedEnvironment 30000 0))
        (millisecondCounterAfterScan (unreferencedEnvironment 30000 0)) (examplePool 301 0)
       \<noteq> examplePool 301 0"
  by (simp add: garbageCollectIfNeeded_def garbageCollect_def garbageCollect_loop_filter
      examplePool_def unreferencedEnvironment_def length_exampleTable
      minNumberOfStringsForGarbageCollection_def garbageCollectionInterval_def)

text \<open>
  C4, amended. The check runs a pass exactly when the table has more than 300 entries and
  the counter is strictly greater than the timestamp plus 30000, the sum taken modulo
  \<open>2 ^ 32\<close>; otherwise it leaves the pool unchanged. When the sum does not wrap, that is:
  at least 301 entries and at least 30001 ms on the counter since the last collection.
\<close>

theorem garbageCollectIfNeeded_runs_iff:
  "garbageCollectIfNeeded env pool =
     (if 300 < length (strings pool)
         \<and> (unat (lastGarbageCollectionTime pool) + 30000) mod 2 ^ 32
             < unat (millisecondCounter env)
      then garbageCollect (getReferenceCount env) (millisecondCounterAfterScan env) pool
      else pool)
   \<and> (unat (lastGarbageCollectionTime pool) + 30000 < 2 ^ 32 \<longrightarrow>
        garbageCollectIfNeeded env pool =
          (if 301 \<le> length (strings pool)
              \<and> unat (lastGarbageCollectionTime pool) + 30001 \<le> unat (millisecondCounter env)
           then garbageCollect (getReferenceCount env) (millisecondCounterAfterScan env) pool
           else pool))"
  by (auto simp: garbageCollectIfNeeded_def minNumberOfStringsForGarbageCollection_def
      interval_guard_nat)

theorem garbageCollectIfNeeded_runs_iff_witness:
  "unat (lastGarbageCollectionTime (examplePool 301 0)) + 30000 < (2::nat) ^ 32
   \<and> garbageCollectIfNeeded (unreferencedEnvironment 30001 0) (examplePool 301 0)
       = \<lparr>strings = [], lastGarbageCollectionTime = 30001\<rparr>
   \<and> garbageCollectIfNeeded (unreferencedEnvironment 30001 0) (examplePool 300 0)
       = examplePool 300 0"
proof -
  have nowrap: "unat (lastGarbageCollectionTime (examplePool 301 0)) + 30000 < (2::nat) ^ 32"
    by (simp add: examplePool_def)
  have gc: "garbageCollect (getReferenceCount (unreferencedEnvironment 30001 0))
              (millisecondCounterAfterScan (unreferencedEnvironment 30001 0)) (examplePool 301 0)
            = \<lparr>strings = [], lastGarbageCollectionTime = 30001\<rparr>"
    by (simp add: garbageCollect_def garbageCollect_loop_filter examplePool_def
        unreferencedEnvironment_def)
  have a: "garbageCollectIfNeeded (unreferencedEnvironment 30001 0) (examplePool 301 0)
       = \<lparr>strings = [], lastGarbageCollectionTime = 30001\<rparr>"
    using garbageCollectIfNeeded_runs_iff [of "unreferencedEnvironment 30001 0" "examplePool 301 0"]
      nowrap gc
    by (simp add: examplePool_def unreferencedEnvironment_def length_exampleTable)
  have b: "garbageCollectIfNeeded (unreferencedEnvironment 30001 0) (examplePool 300 0)
       = examplePool 300 0"
    using garbageCollectIfNeeded_runs_iff [of "unreferencedEnvironment 30001 0" "examplePool 300 0"]
    by (simp add: examplePool_def unreferencedEnvironment_def length_exampleTable)
  show ?thesis using nowrap a b by simp
qed

subsection \<open>C5: null and empty inputs\<close>

text \<open>
  C5. For a null or empty argument (a null pointer; a buffer, reference or string with the
  zero byte under its pointer; a range that is empty or starts at the zero byte), every
  overload of \<^verbatim>\<open>getPooledString\<close> returns the shared empty string and the same pool: no
  entry is added or removed and the timestamp is not touched, so no collection check took
  place. Every other argument takes the locked path: the collection check, then the
  lookup or insertion. The test is on the byte, as in the source: an argument of non-zero
  bytes whose first character decodes to \<open>0\<close> is not empty
  (\<open>getPooledString_zero_character_example\<close>).
\<close>

theorem getPooledString_empty_input:
  "(inputCharacters input = [] \<longrightarrow> getPooledString env pool input = (emptyString, pool))
   \<and> (inputCharacters input \<noteq> [] \<longrightarrow>
         getPooledString env pool input
           = getPooledString_locked env pool (asNewString input))"
proof (cases input)
  case (RawBuffer newString)
  then show ?thesis
    by (cases newString) (simp_all add: pointsAtZeroByte_iff)
next
  case (StartEnd r)
  then show ?thesis by (auto simp: isEmpty_iff beforeZeroByte_def [of "[]"])
next
  case (Ref p)
  then show ?thesis by (simp add: isEmpty_iff)
next
  case (Owned s)
  then show ?thesis by (simp add: isEmpty_iff)
qed

theorem getPooledString_empty_input_witness:
  "inputCharacters (RawBuffer None) = []
   \<and> getPooledString (unreferencedEnvironment 40000 9) (examplePool 301 0) (RawBuffer None)
       = (emptyString, examplePool 301 0)
   \<and> inputCharacters (RawBuffer (Some [])) = []
   \<and> getPooledString (unreferencedEnvironment 40000 9) (examplePool 301 0) (RawBuffer (Some []))
       = (emptyString, examplePool 301 0)
   \<and> inputCharacters (RawBuffer (Some [ZeroByte, Encoded 97])) = []
   \<and> getPooledString (unreferencedEnvironment 40000 9) (examplePool 301 0)
         (RawBuffer (Some [ZeroByte, Encoded 97]))
       = (emptyString, examplePool 301 0)
   \<and> inputCharacters (StartEnd []) = []
   \<and> getPooledString (unreferencedEnvironment 40000 9) (examplePool 301 0) (StartEnd [])
       = (emptyString, examplePool 301 0)
   \<and> inputCharacters (StartEnd [ZeroByte, Encoded 98]) = []
   \<and> getPooledString (unreferencedEnvironment 40000 9) (examplePool 301 0)
         (StartEnd [ZeroByte, Encoded 98])
       = (emptyString, examplePool 301 0)
   \<and> inputCharacters (Ref [ZeroByte, Encoded 102]) = []
   \<and> getPooledString (unreferencedEnvironment 40000 9) (examplePool 301 0)
         (Ref [ZeroByte, Encoded 102])
       = (emptyString, examplePool 301 0)
   \<and> inputCharacters (Owned emptyString) = []
   \<and> getPooledString (unreferencedEnvironment 40000 9) (examplePool 301 0) (Owned emptyString)
       = (emptyString, examplePool 301 0)
   \<and> inputCharacters (RawBuffer (Some [Encoded 0, Encoded 97])) = [Encoded 0, Encoded 97]
   \<and> getPooledString (quietEnvironment 7) newStringPool (RawBuffer (Some [Encoded 0, Encoded 97]))
       = getPooledString_locked (quietEnvironment 7) newStringPool
           (NewCharPointer_UTF8 [Encoded 0, Encoded 97])
   \<and> getPooledString_locked (quietEnvironment 7) newStringPool
         (NewCharPointer_UTF8 [Encoded 0, Encoded 97])
       = (\<lparr>holder = 7, getCharPointer = [Encoded 0, Encoded 97]\<rparr>,
          \<lparr>strings = [\<lparr>holder = 7, getCharPointer = [Encoded 0, Encoded 97]\<rparr>],
           lastGarbageCollectionTime = 0\<rparr>)"
proof -
  have c: "inputCharacters (RawBuffer None) = []" "inputCharacters (RawBuffer (Some [])) = []"
    "inputCharacters (RawBuffer (Some [ZeroByte, Encoded 97])) = []"
    "inputCharacters (StartEnd []) = []" "inputCharacters (StartEnd [ZeroByte, Encoded 98]) = []"
    "inputCharacters (Ref [ZeroByte, Encoded 102]) = []"
    "inputCharacters (Owned emptyString) = []"
    by (simp_all add: beforeZeroByte_def emptyString_def)
  have e: "getPooledString (unreferencedEnvironment 40000 9) (examplePool 301 0) input
             = (emptyString, examplePool 301 0)"
    if "inputCharacters input = []" for input
    using getPooledString_empty_input
      [of input "unreferencedEnvironment 40000 9" "examplePool 301 0"] that
    by blast
  have z: "inputCharacters (RawBuffer (Some [Encoded 0, Encoded 97])) = [Encoded 0, Encoded 97]"
    by (simp add: beforeZeroByte_def)
  have l: "getPooledString (quietEnvironment 7) newStringPool
             (RawBuffer (Some [Encoded 0, Encoded 97]))
           = getPooledString_locked (quietEnvironment 7) newStringPool
               (NewCharPointer_UTF8 [Encoded 0, Encoded 97])"
    using getPooledString_empty_input
      [of "RawBuffer (Some [Encoded 0, Encoded 97])" "quietEnvironment 7" newStringPool] z
    by simp
  have v: "getPooledString_locked (quietEnvironment 7) newStringPool
         (NewCharPointer_UTF8 [Encoded 0, Encoded 97])
       = (\<lparr>holder = 7, getCharPointer = [Encoded 0, Encoded 97]\<rparr>,
          \<lparr>strings = [\<lparr>holder = 7, getCharPointer = [Encoded 0, Encoded 97]\<rparr>],
           lastGarbageCollectionTime = 0\<rparr>)"
    by code_simp
  show ?thesis
    using c e [OF c(1)] e [OF c(2)] e [OF c(3)] e [OF c(4)] e [OF c(5)] e [OF c(6)] e [OF c(7)]
      z l v
    by simp
qed

subsection \<open>C6: the comparators agree\<close>

text \<open>
  C6. The range comparator returns \<open>-1\<close>, \<open>0\<close> or \<open>1\<close>: \<open>0\<close> exactly when the content of the
  range equals the content of the stored string, a negative value exactly when it is
  lexicographically less, a positive value exactly when it is greater. The content of a
  range is what a reader sees that takes the end of the range for the terminator: the
  code points before the first \<open>0\<close>, which is the whole range when none of its characters
  decodes to \<open>0\<close>. The three
  comparators give the same result for inputs of equal content, an input compares equal
  to the entry stored for another input exactly when their contents are equal, and on a
  sorted table a lookup through one representation returns the entry that a call through
  another representation of the same content has returned, without changing the table.
\<close>

theorem compareStrings_agree_across_representations:
  "compareStrings (NewStartEndString r) s \<in> {- 1, 0, 1}
   \<and> (compareStrings (NewStartEndString r) s = 0 \<longleftrightarrow> untilTerminator r = content s)
   \<and> (compareStrings (NewStartEndString r) s < 0 \<longleftrightarrow> untilTerminator r < content s)
   \<and> (0 < compareStrings (NewStartEndString r) s \<longleftrightarrow> content s < untilTerminator r)
   \<and> (0 \<notin> codePoint ` set r \<longrightarrow> untilTerminator r = map codePoint r)
   \<and> (newContent a = newContent b \<longrightarrow> compareStrings a s = compareStrings b s)
   \<and> (compareStrings a (toString h b) = 0 \<longleftrightarrow> newContent a = newContent b)
   \<and> (strictlySorted table \<and> newContent a = newContent b
        \<and> addPooledString h table a = (table', e)
        \<longrightarrow> addPooledString h' table' b = (table', e))"
proof -
  have c: "compareStrings (NewStartEndString r) s = threeWay (untilTerminator r) (content s)"
    by (simp add: compareStrings_threeWay)
  have 1: "compareStrings (NewStartEndString r) s \<in> {- 1, 0, 1}"
    unfolding c by (simp add: threeWay_def)
  have 2: "addPooledString h' table' b = (table', e)"
    if "strictlySorted table" "newContent a = newContent b"
      "addPooledString h table a = (table', e)"
  proof -
    from addPooledString_spec [OF that(1,3)]
    have "strictlySorted table'" "e \<in> set table'" "content e = newContent b"
      using that(2) by simp_all
    then show ?thesis by (rule addPooledString_found)
  qed
  have 3: "compareStrings a (toString h b) = 0 \<longleftrightarrow> newContent a = newContent b"
    by (simp add: compareStrings_threeWay threeWay_zero content_toString)
  show ?thesis
    using 1 2 3 untilTerminator_no_zero [of r]
    by (auto simp: c threeWay_zero threeWay_pos threeWay_neg compareStrings_threeWay)
qed

theorem compareStrings_agree_across_representations_witness:
  "0 \<notin> codePoint ` set foo \<and> untilTerminator foo = map codePoint foo
   \<and> compareStrings (NewStartEndString foo) \<lparr>holder = 1, getCharPointer = foo\<rparr> = 0
   \<and> compareStrings (NewStartEndString bar) \<lparr>holder = 1, getCharPointer = foo\<rparr> = - 1
   \<and> newContent (NewCharPointer_UTF8 foo) = newContent (NewStartEndString (foo @ [ZeroByte, Encoded 98]))
   \<and> compareStrings (NewCharPointer_UTF8 foo) \<lparr>holder = 2, getCharPointer = bar\<rparr>
       = compareStrings (NewStartEndString (foo @ [ZeroByte, Encoded 98])) \<lparr>holder = 2, getCharPointer = bar\<rparr>
   \<and> strictlySorted [\<lparr>holder = 2, getCharPointer = bar\<rparr>]
   \<and> addPooledString 1 [\<lparr>holder = 2, getCharPointer = bar\<rparr>] (NewCharPointer_UTF8 foo)
       = ([\<lparr>holder = 2, getCharPointer = bar\<rparr>, \<lparr>holder = 1, getCharPointer = foo\<rparr>],
          \<lparr>holder = 1, getCharPointer = foo\<rparr>)
   \<and> addPooledString 7 [\<lparr>holder = 2, getCharPointer = bar\<rparr>, \<lparr>holder = 1, getCharPointer = foo\<rparr>]
         (NewStartEndString (foo @ [ZeroByte, Encoded 98]))
       = ([\<lparr>holder = 2, getCharPointer = bar\<rparr>, \<lparr>holder = 1, getCharPointer = foo\<rparr>],
          \<lparr>holder = 1, getCharPointer = foo\<rparr>)"
proof -
  define barEntry where "barEntry = \<lparr>holder = 2, getCharPointer = bar\<rparr>"
  define fooEntry where "fooEntry = \<lparr>holder = 1, getCharPointer = foo\<rparr>"
  have z: "0 \<notin> codePoint ` set foo" by (simp add: foo_def)
  have u: "untilTerminator foo = map codePoint foo"
    using compareStrings_agree_across_representations [where r = foo] z by blast
  have c0: "compareStrings (NewStartEndString foo) fooEntry = 0"
    unfolding fooEntry_def by code_simp
  have c1: "compareStrings (NewStartEndString bar) fooEntry = - 1"
    unfolding fooEntry_def by code_simp
  have n: "newContent (NewCharPointer_UTF8 foo) = newContent (NewStartEndString (foo @ [ZeroByte, Encoded 98]))"
    by (simp add: untilTerminator_def foo_def)
  have s: "strictlySorted [barEntry]" by (simp add: strictlySorted_def)
  have a: "addPooledString 1 [barEntry] (NewCharPointer_UTF8 foo)
             = ([barEntry, fooEntry], fooEntry)"
    unfolding fooEntry_def barEntry_def by code_simp
  have agree: "compareStrings (NewCharPointer_UTF8 foo) barEntry
       = compareStrings (NewStartEndString (foo @ [ZeroByte, Encoded 98])) barEntry"
    using compareStrings_agree_across_representations
      [where a = "NewCharPointer_UTF8 foo" and b = "NewStartEndString (foo @ [ZeroByte, Encoded 98])"
         and s = barEntry] n
    by blast
  have again: "addPooledString 7 [barEntry, fooEntry] (NewStartEndString (foo @ [ZeroByte, Encoded 98]))
             = ([barEntry, fooEntry], fooEntry)"
    using compareStrings_agree_across_representations
      [where a = "NewCharPointer_UTF8 foo" and b = "NewStartEndString (foo @ [ZeroByte, Encoded 98])"
         and h = 1 and table = "[barEntry]" and table' = "[barEntry, fooEntry]"
         and e = fooEntry and h' = 7] n s a
    by blast
  show ?thesis
    using z u c0 c1 n agree s a again unfolding fooEntry_def barEntry_def by simp
qed

subsection \<open>C7: the insertion index\<close>

text \<open>
  C7. On a strictly sorted table that does not hold the content of the input, the loop
  ends without returning an entry, at the index \<open>pos\<close> that is the number of entries less
  than the input: all entries before \<open>pos\<close> are less, all from \<open>pos\<close> on are greater. The
  input is stored there and returned, the table stays strictly sorted, and no other index
  would keep it sorted. When the range has collapsed (\<open>halfway = start\<close>) and the entry at
  \<open>start\<close> is not equal, the loop breaks with \<open>start + 1\<close> if the input is greater and with
  \<open>start\<close> otherwise. The example of the specification holds: "foo" into the new pool
  gives the table ["foo"], then "bar" gives ["bar", "foo"], then "foo" again returns the
  first entry and leaves the table alone.
\<close>

theorem addPooledString_insertion_index:
  "(strictlySorted table \<and> newContent n \<notin> content ` set table \<longrightarrow>
      (\<exists>pos. addPooledString_loop table n 0 (length table) = Inr pos
         \<and> pos = length (filter (\<lambda>s. content s < newContent n) table)
         \<and> (\<forall>i. i < pos \<longrightarrow> content (table ! i) < newContent n)
         \<and> (\<forall>i. pos \<le> i \<and> i < length table \<longrightarrow> newContent n < content (table ! i))
         \<and> addPooledString h table n = (Array_insert pos (toString h n) table, toString h n)
         \<and> strictlySorted (Array_insert pos (toString h n) table)
         \<and> (\<forall>k. k \<le> length table \<and> strictlySorted (Array_insert k (toString h n) table)
                \<longrightarrow> k = pos)))
   \<and> (compareStrings n (table ! start) \<noteq> 0 \<and> (start + end) div 2 = start \<longrightarrow>
        addPooledString_iteration table n start end
          = Break (if 0 < compareStrings n (table ! start) then start + 1 else start))
   \<and> getPooledString (quietEnvironment 1) newStringPool (RawBuffer (Some foo))
       = (\<lparr>holder = 1, getCharPointer = foo\<rparr>,
          \<lparr>strings = [\<lparr>holder = 1, getCharPointer = foo\<rparr>], lastGarbageCollectionTime = 0\<rparr>)
   \<and> getPooledString (quietEnvironment 2)
         \<lparr>strings = [\<lparr>holder = 1, getCharPointer = foo\<rparr>], lastGarbageCollectionTime = 0\<rparr>
         (RawBuffer (Some bar))
       = (\<lparr>holder = 2, getCharPointer = bar\<rparr>,
          \<lparr>strings = [\<lparr>holder = 2, getCharPointer = bar\<rparr>, \<lparr>holder = 1, getCharPointer = foo\<rparr>],
           lastGarbageCollectionTime = 0\<rparr>)
   \<and> getPooledString (quietEnvironment 3)
         \<lparr>strings = [\<lparr>holder = 2, getCharPointer = bar\<rparr>, \<lparr>holder = 1, getCharPointer = foo\<rparr>],
          lastGarbageCollectionTime = 0\<rparr>
         (RawBuffer (Some foo))
       = (\<lparr>holder = 1, getCharPointer = foo\<rparr>,
          \<lparr>strings = [\<lparr>holder = 2, getCharPointer = bar\<rparr>, \<lparr>holder = 1, getCharPointer = foo\<rparr>],
           lastGarbageCollectionTime = 0\<rparr>)"
proof -
  have general: "\<exists>pos. addPooledString_loop table n 0 (length table) = Inr pos
         \<and> pos = length (filter (\<lambda>s. content s < newContent n) table)
         \<and> (\<forall>i. i < pos \<longrightarrow> content (table ! i) < newContent n)
         \<and> (\<forall>i. pos \<le> i \<and> i < length table \<longrightarrow> newContent n < content (table ! i))
         \<and> addPooledString h table n = (Array_insert pos (toString h n) table, toString h n)
         \<and> strictlySorted (Array_insert pos (toString h n) table)
         \<and> (\<forall>k. k \<le> length table \<and> strictlySorted (Array_insert k (toString h n) table)
                \<longrightarrow> k = pos)"
    if sorted: "strictlySorted table" and missing: "newContent n \<notin> content ` set table"
  proof -
    from addPooledString_missing [OF sorted missing, of h]
    obtain pos where p: "addPooledString_loop table n 0 (length table) = Inr pos"
      "pos \<le> length table"
      "\<forall>i<pos. content (table ! i) < newContent n"
      "\<forall>i. pos \<le> i \<and> i < length table \<longrightarrow> newContent n < content (table ! i)"
      "addPooledString h table n = (Array_insert pos (toString h n) table, toString h n)"
      by blast
    have cnt: "pos = length (filter (\<lambda>s. content s < newContent n) table)"
      by (rule insertion_index_count [OF p(2,3,4)])
    have ins: "strictlySorted (Array_insert pos (toString h n) table)"
      using p(2,3,4) by (intro strictlySorted_insert [OF sorted]) (simp_all add: content_toString)
    have uniq: "k = pos"
      if "k \<le> length table" "strictlySorted (Array_insert k (toString h n) table)" for k
      using p(3,4) by (intro insertion_index_unique [OF p(2) _ _ that]) (simp_all add: content_toString)
    show ?thesis using p(1,3,4,5) cnt ins uniq by blast
  qed
  have break: "addPooledString_iteration table n start end
          = Break (if 0 < compareStrings n (table ! start) then start + 1 else start)"
    if "compareStrings n (table ! start) \<noteq> 0" "(start + end) div 2 = start"
    using that by (simp add: addPooledString_iteration_def)
  have e1: "getPooledString (quietEnvironment 1) newStringPool (RawBuffer (Some foo))
       = (\<lparr>holder = 1, getCharPointer = foo\<rparr>,
          \<lparr>strings = [\<lparr>holder = 1, getCharPointer = foo\<rparr>], lastGarbageCollectionTime = 0\<rparr>)"
    by code_simp
  have e2: "getPooledString (quietEnvironment 2)
         \<lparr>strings = [\<lparr>holder = 1, getCharPointer = foo\<rparr>], lastGarbageCollectionTime = 0\<rparr>
         (RawBuffer (Some bar))
       = (\<lparr>holder = 2, getCharPointer = bar\<rparr>,
          \<lparr>strings = [\<lparr>holder = 2, getCharPointer = bar\<rparr>, \<lparr>holder = 1, getCharPointer = foo\<rparr>],
           lastGarbageCollectionTime = 0\<rparr>)"
    by code_simp
  have e3: "getPooledString (quietEnvironment 3)
         \<lparr>strings = [\<lparr>holder = 2, getCharPointer = bar\<rparr>, \<lparr>holder = 1, getCharPointer = foo\<rparr>],
          lastGarbageCollectionTime = 0\<rparr>
         (RawBuffer (Some foo))
       = (\<lparr>holder = 1, getCharPointer = foo\<rparr>,
          \<lparr>strings = [\<lparr>holder = 2, getCharPointer = bar\<rparr>, \<lparr>holder = 1, getCharPointer = foo\<rparr>],
           lastGarbageCollectionTime = 0\<rparr>)"
    by code_simp
  show ?thesis using general break e1 e2 e3 by blast
qed

theorem addPooledString_insertion_index_witness:
  "strictlySorted (exampleTable 5)
   \<and> newContent (NewCharPointer_UTF8 [Encoded 3, Encoded 7]) \<notin> content ` set (exampleTable 5)
   \<and> addPooledString_loop (exampleTable 5) (NewCharPointer_UTF8 [Encoded 3, Encoded 7]) 0 5 = Inr 3
   \<and> length (filter (\<lambda>s. content s < newContent (NewCharPointer_UTF8 [Encoded 3, Encoded 7])) (exampleTable 5)) = 3
   \<and> addPooledString 9 (exampleTable 5) (NewCharPointer_UTF8 [Encoded 3, Encoded 7])
       = (Array_insert 3 \<lparr>holder = 9, getCharPointer = [Encoded 3, Encoded 7]\<rparr> (exampleTable 5),
          \<lparr>holder = 9, getCharPointer = [Encoded 3, Encoded 7]\<rparr>)
   \<and> strictlySorted (Array_insert 3 \<lparr>holder = 9, getCharPointer = [Encoded 3, Encoded 7]\<rparr> (exampleTable 5))
   \<and> compareStrings (NewCharPointer_UTF8 [Encoded 3, Encoded 7]) (exampleTable 5 ! 2) = 1
   \<and> ((2::nat) + 3) div 2 = 2
   \<and> addPooledString_iteration (exampleTable 5) (NewCharPointer_UTF8 [Encoded 3, Encoded 7]) 2 3 = Break 3"
proof -
  have cmp: "compareStrings (NewCharPointer_UTF8 [Encoded 3, Encoded 7]) (exampleTable 5 ! 2) = 1"
    by code_simp
  have brk: "addPooledString_iteration (exampleTable 5) (NewCharPointer_UTF8 [Encoded 3, Encoded 7]) 2 3 = Break 3"
    using addPooledString_insertion_index
      [where table = "exampleTable 5" and n = "NewCharPointer_UTF8 [Encoded 3, Encoded 7]"
         and start = 2 and ?end = 3] cmp
    by simp
  have s: "strictlySorted (exampleTable 5)" by (rule strictlySorted_exampleTable)
  have m: "newContent (NewCharPointer_UTF8 [Encoded 3, Encoded 7]) \<notin> content ` set (exampleTable 5)"
    by (auto simp: content_exampleTable untilTerminator_def)
  have l: "addPooledString_loop (exampleTable 5) (NewCharPointer_UTF8 [Encoded 3, Encoded 7]) 0
             (length (exampleTable 5)) = Inr 3"
    by code_simp
  have t: "toString 9 (NewCharPointer_UTF8 [Encoded 3, Encoded 7]) = \<lparr>holder = 9, getCharPointer = [Encoded 3, Encoded 7]\<rparr>"
    by (simp add: beforeZeroByte_def untilTerminator_def)
  from addPooledString_insertion_index
    [where table = "exampleTable 5" and n = "NewCharPointer_UTF8 [Encoded 3, Encoded 7]" and h = 9] s m
  obtain pos where p:
    "addPooledString_loop (exampleTable 5) (NewCharPointer_UTF8 [Encoded 3, Encoded 7]) 0 (length (exampleTable 5))
       = Inr pos"
    "pos = length (filter (\<lambda>s. content s < newContent (NewCharPointer_UTF8 [Encoded 3, Encoded 7])) (exampleTable 5))"
    "addPooledString 9 (exampleTable 5) (NewCharPointer_UTF8 [Encoded 3, Encoded 7])
       = (Array_insert pos (toString 9 (NewCharPointer_UTF8 [Encoded 3, Encoded 7])) (exampleTable 5),
          toString 9 (NewCharPointer_UTF8 [Encoded 3, Encoded 7]))"
    "strictlySorted (Array_insert pos (toString 9 (NewCharPointer_UTF8 [Encoded 3, Encoded 7])) (exampleTable 5))"
    by blast
  from p(1) l have "pos = 3" by simp
  then show ?thesis using s m l p(2,3,4) t cmp brk by (simp add: length_exampleTable)
qed

subsection \<open>C9: the loop terminates after logarithmically many iterations\<close>

text \<open>
  C9. The loop of \<^verbatim>\<open>addPooledString\<close> is a total function (its termination is proved
  with the measure \<open>end - start\<close>). An iteration that neither returns nor breaks has
  \<open>start < halfway < end\<close> and continues with \<open>[halfway, end)\<close> or \<open>[start, halfway)\<close>, a
  strictly shorter range. The loop body is entered at most \<open>floorlog 2 (end - start) + 1\<close>
  times, where \<open>floorlog 2 n\<close> is the number of binary digits of \<open>n\<close>; for the whole table
  that is at most \<open>floorlog 2 (size) + 1\<close> iterations, for every input and every table.
\<close>

theorem addPooledString_loop_shrinks_logarithmic:
  "(start < end \<and> addPooledString_iteration table n start end = Continue start' end' \<longrightarrow>
      start < (start + end) div 2 \<and> (start + end) div 2 < end
      \<and> (start' = (start + end) div 2 \<and> end' = end
           \<or> start' = start \<and> end' = (start + end) div 2)
      \<and> end' - start' < end - start)
   \<and> addPooledString_iterations table n start end \<le> floorlog 2 (end - start) + 1
   \<and> addPooledString_iterations table n 0 (length table) \<le> floorlog 2 (length table) + 1"
proof -
  have "start < (start + end) div 2 \<and> (start + end) div 2 < end
      \<and> (start' = (start + end) div 2 \<and> end' = end
           \<or> start' = start \<and> end' = (start + end) div 2)
      \<and> end' - start' < end - start"
    if "start < end" "addPooledString_iteration table n start end = Continue start' end'"
    using iteration_Continue [OF that(2)] that(1) by auto
  then show ?thesis
    using iterations_bound_floorlog [of table n start "end"]
      iterations_bound_floorlog [of table n 0 "length table"] by auto
qed

theorem addPooledString_loop_shrinks_logarithmic_witness:
  "(0::nat) < 5
   \<and> addPooledString_iteration (exampleTable 5) (NewCharPointer_UTF8 [Encoded 4]) 0 5 = Continue 2 5
   \<and> (0::nat) < (0 + 5) div 2 \<and> ((0::nat) + 5) div 2 < 5 \<and> (5::nat) - 2 < 5 - 0
   \<and> addPooledString_iterations (exampleTable 5) (NewCharPointer_UTF8 [Encoded 4]) 0 5 = 2
   \<and> addPooledString_iterations (exampleTable 5) (NewCharPointer_UTF8 [Encoded 4]) 0 5
       \<le> floorlog 2 (5 - 0) + 1"
proof -
  have it: "addPooledString_iteration (exampleTable 5) (NewCharPointer_UTF8 [Encoded 4]) 0 5
              = Continue 2 5"
    by code_simp
  have n: "addPooledString_iterations (exampleTable 5) (NewCharPointer_UTF8 [Encoded 4]) 0 5 = 2"
    by code_simp
  show ?thesis
    using addPooledString_loop_shrinks_logarithmic
      [of 0 5 "exampleTable 5" "NewCharPointer_UTF8 [Encoded 4]" 2 5] it n
    by simp
qed

subsection \<open>C10: the interval guard wraps\<close>

text \<open>
  C10, as the claim states it, puts the suppressed collection where the sum wraps. It is
  not there. The counter shows time modulo \<open>2 ^ 32\<close> ms, so times a whole period apart look
  the same to any guard on it; for times less than a period apart, a timestamp whose sum
  wraps never holds a due collection back: with true times \<open>tLast \<le> tNow\<close>, more than
  30000 ms and less than \<open>2 ^ 32\<close> ms apart, and the table of 301 unreferenced entries, the
  check never leaves the pool alone. In the claim's own setting, timestamp
  \<open>2 ^ 32 - 10000\<close> (the sum wraps to 20000), the pass runs at counter 20001, which is
  30001 ms later.
\<close>

theorem garbageCollectIfNeeded_wrapped_sum_counterexample:
  "\<not> (\<exists>tLast tNow :: nat.
         tLast \<le> tNow \<and> tNow - tLast < 2 ^ 32 \<and> 30000 < tNow - tLast
         \<and> 2 ^ 32 \<le> unat (of_nat tLast :: 32 word) + 30000
         \<and> garbageCollectIfNeeded (unreferencedEnvironment (of_nat tNow) 0)
              (examplePool 301 (of_nat tLast))
             = examplePool 301 (of_nat tLast))
   \<and> garbageCollectIfNeeded (unreferencedEnvironment 20001 0) (examplePool 301 4294957296)
       = \<lparr>strings = [], lastGarbageCollectionTime = 20001\<rparr>"
proof -
  have "garbageCollectIfNeeded (unreferencedEnvironment (of_nat tNow) 0)
              (examplePool 301 (of_nat tLast))
             \<noteq> examplePool 301 (of_nat tLast)"
    if "tLast \<le> tNow" "tNow - tLast < 2 ^ 32" "30000 < tNow - tLast"
      "2 ^ 32 \<le> unat (of_nat tLast :: 32 word) + 30000" for tLast tNow :: nat
  proof -
    have "unat ((of_nat tNow :: 32 word) - of_nat tLast) = tNow - tLast"
      by (rule unat_counter_difference [OF that(1,2)])
    with that(3) interval_guard_within_one_period [OF that(4), of "of_nat tNow"]
    have due: "(of_nat tLast :: 32 word) + garbageCollectionInterval < of_nat tNow"
      by auto
    have "exampleTable 301 \<noteq> []" by (simp add: exampleTable_def)
    then show ?thesis using due
      by (simp add: garbageCollectIfNeeded_def garbageCollect_def garbageCollect_loop_filter
          examplePool_def unreferencedEnvironment_def length_exampleTable
          minNumberOfStringsForGarbageCollection_def)
  qed
  moreover have "garbageCollectIfNeeded (unreferencedEnvironment 20001 0) (examplePool 301 4294957296)
       = \<lparr>strings = [], lastGarbageCollectionTime = 20001\<rparr>"
    by (simp add: garbageCollectIfNeeded_def garbageCollect_def garbageCollect_loop_filter
          examplePool_def unreferencedEnvironment_def length_exampleTable
          minNumberOfStringsForGarbageCollection_def garbageCollectionInterval_def)
  ultimately show ?thesis by blast
qed

text \<open>
  C10, amended. The guard is evaluated on unsigned 32-bit values: the check runs a pass
  exactly when the table has more than 300 entries and the counter is greater than
  \<open>(last + 30000) mod 2 ^ 32\<close>, which is not a comparison of elapsed time. When the sum
  wraps, the bound is \<open>last + 30000 - 2 ^ 32\<close>: a pass then runs whenever more than 30000 ms
  have passed on the counter (nothing is held back), and it also runs too early, at every
  counter value from \<open>last\<close> up to the end of the period, even right after the last pass.
  A collection is held back in the other case: when the sum does not wrap and the counter
  has wrapped to a value below \<open>last\<close>, no pass runs, however long ago the last one was,
  until the counter has passed \<open>last + 30000\<close> again.
\<close>

theorem garbageCollectIfNeeded_interval_guard_wraps:
  "garbageCollectIfNeeded env pool =
     (if 300 < length (strings pool)
         \<and> (unat (lastGarbageCollectionTime pool) + 30000) mod 2 ^ 32
             < unat (millisecondCounter env)
      then garbageCollect (getReferenceCount env) (millisecondCounterAfterScan env) pool
      else pool)
   \<and> (2 ^ 32 \<le> unat (lastGarbageCollectionTime pool) + 30000 \<longrightarrow>
        garbageCollectIfNeeded env pool =
          (if 300 < length (strings pool)
              \<and> unat (lastGarbageCollectionTime pool) + 30000 - 2 ^ 32
                  < unat (millisecondCounter env)
           then garbageCollect (getReferenceCount env) (millisecondCounterAfterScan env) pool
           else pool))
   \<and> (2 ^ 32 \<le> unat (lastGarbageCollectionTime pool) + 30000
        \<and> 300 < length (strings pool)
        \<and> 30000 < unat (millisecondCounter env - lastGarbageCollectionTime pool) \<longrightarrow>
        garbageCollectIfNeeded env pool
          = garbageCollect (getReferenceCount env) (millisecondCounterAfterScan env) pool)
   \<and> (2 ^ 32 \<le> unat (lastGarbageCollectionTime pool) + 30000
        \<and> 300 < length (strings pool)
        \<and> unat (lastGarbageCollectionTime pool) \<le> unat (millisecondCounter env) \<longrightarrow>
        garbageCollectIfNeeded env pool
          = garbageCollect (getReferenceCount env) (millisecondCounterAfterScan env) pool)
   \<and> (unat (lastGarbageCollectionTime pool) + 30000 < 2 ^ 32
        \<and> unat (millisecondCounter env) < unat (lastGarbageCollectionTime pool) \<longrightarrow>
        garbageCollectIfNeeded env pool = pool)"
proof -
  define t where "t = lastGarbageCollectionTime pool"
  define now where "now = millisecondCounter env"
  have tb: "unat t < 2 ^ 32" using unsigned_less [of t] by simp
  have 1: "(t + garbageCollectionInterval < now) = ((unat t + 30000) mod 2 ^ 32 < unat now)"
    by (rule interval_guard_nat)
  have m: "(unat t + 30000) mod 2 ^ 32 = unat t + 30000 - 2 ^ 32" if "2 ^ 32 \<le> unat t + 30000"
    using that tb by (simp add: mod_if)
  have 3: "t + garbageCollectionInterval < now"
    if "2 ^ 32 \<le> unat t + 30000" "30000 < unat (now - t)"
    using interval_guard_within_one_period [OF that(1), of now] that(2) by auto
  have 4: "t + garbageCollectionInterval < now"
    if "2 ^ 32 \<le> unat t + 30000" "unat t \<le> unat now"
  proof -
    have "unat t + 30000 - 2 ^ 32 < unat now" using that tb by simp
    then have "(unat t + 30000) mod 2 ^ 32 < unat now" by (simp only: m [OF that(1)])
    then show ?thesis by (simp only: 1)
  qed
  have 5: "\<not> (t + garbageCollectionInterval < now)"
    if "unat t + 30000 < 2 ^ 32" "unat now < unat t"
    using that by (simp add: 1)
  have 2: "(t + garbageCollectionInterval < now) = (unat t + 30000 - 2 ^ 32 < unat now)"
    if "2 ^ 32 \<le> unat t + 30000"
    by (simp only: 1 m [OF that])
  have g: "garbageCollectIfNeeded env pool =
     (if 300 < length (strings pool) \<and> t + garbageCollectionInterval < now
      then garbageCollect (getReferenceCount env) (millisecondCounterAfterScan env) pool
      else pool)"
    by (simp add: garbageCollectIfNeeded_def minNumberOfStringsForGarbageCollection_def
        t_def now_def)
  have c1: "garbageCollectIfNeeded env pool =
     (if 300 < length (strings pool) \<and> (unat t + 30000) mod 2 ^ 32 < unat now
      then garbageCollect (getReferenceCount env) (millisecondCounterAfterScan env) pool
      else pool)"
    by (simp only: g 1)
  have c2: "garbageCollectIfNeeded env pool =
     (if 300 < length (strings pool) \<and> unat t + 30000 - 2 ^ 32 < unat now
      then garbageCollect (getReferenceCount env) (millisecondCounterAfterScan env) pool
      else pool)" if "2 ^ 32 \<le> unat t + 30000"
    by (simp only: g 2 [OF that])
  have c3: "garbageCollectIfNeeded env pool
          = garbageCollect (getReferenceCount env) (millisecondCounterAfterScan env) pool"
    if "2 ^ 32 \<le> unat t + 30000" "300 < length (strings pool)" "30000 < unat (now - t)"
    using 3 [OF that(1,3)] that(2) by (simp only: g if_True simp_thms)
  have c4: "garbageCollectIfNeeded env pool
          = garbageCollect (getReferenceCount env) (millisecondCounterAfterScan env) pool"
    if "2 ^ 32 \<le> unat t + 30000" "300 < length (strings pool)" "unat t \<le> unat now"
    using 4 [OF that(1,3)] that(2) by (simp only: g if_True simp_thms)
  have c5: "garbageCollectIfNeeded env pool = pool"
    if "unat t + 30000 < 2 ^ 32" "unat now < unat t"
    using 5 [OF that] by (simp only: g if_False simp_thms)
  show ?thesis
    using c1 c2 c3 c4 c5 unfolding t_def now_def by blast
qed

theorem garbageCollectIfNeeded_interval_guard_wraps_witness:
  "(2::nat) ^ 32 \<le> unat (lastGarbageCollectionTime (examplePool 301 4294957296)) + 30000
   \<and> 300 < length (strings (examplePool 301 4294957296))
   \<and> unat (millisecondCounter (unreferencedEnvironment 20001 0)
             - lastGarbageCollectionTime (examplePool 301 4294957296)) = 30001
   \<and> garbageCollectIfNeeded (unreferencedEnvironment 20001 0) (examplePool 301 4294957296)
       = \<lparr>strings = [], lastGarbageCollectionTime = 20001\<rparr>
   \<and> unat (millisecondCounter (unreferencedEnvironment 20000 0)
             - lastGarbageCollectionTime (examplePool 301 4294957296)) = 30000
   \<and> garbageCollectIfNeeded (unreferencedEnvironment 20000 0) (examplePool 301 4294957296)
       = examplePool 301 4294957296
   \<and> unat (millisecondCounter (unreferencedEnvironment 4294957297 0)
             - lastGarbageCollectionTime (examplePool 301 4294957296)) = 1
   \<and> garbageCollectIfNeeded (unreferencedEnvironment 4294957297 0) (examplePool 301 4294957296)
       = \<lparr>strings = [], lastGarbageCollectionTime = 4294957297\<rparr>
   \<and> unat (lastGarbageCollectionTime (examplePool 301 4294927296)) + 30000 < (2::nat) ^ 32
   \<and> unat (millisecondCounter (unreferencedEnvironment 10000 0)
             - lastGarbageCollectionTime (examplePool 301 4294927296)) = 50000
   \<and> garbageCollectIfNeeded (unreferencedEnvironment 10000 0) (examplePool 301 4294927296)
       = examplePool 301 4294927296"
proof -
  define poolA where "poolA = examplePool 301 4294957296"
  define poolB where "poolB = examplePool 301 4294927296"
  have w: "(2::nat) ^ 32 \<le> unat (lastGarbageCollectionTime poolA) + 30000"
    and n: "300 < length (strings poolA)"
    and nw: "unat (lastGarbageCollectionTime poolB) + 30000 < (2::nat) ^ 32"
    by (simp_all add: poolA_def poolB_def examplePool_def length_exampleTable)
  have d1: "unat (millisecondCounter (unreferencedEnvironment 20001 0)
             - lastGarbageCollectionTime poolA) = 30001"
    and d2: "unat (millisecondCounter (unreferencedEnvironment 20000 0)
             - lastGarbageCollectionTime poolA) = 30000"
    and d3: "unat (millisecondCounter (unreferencedEnvironment 4294957297 0)
             - lastGarbageCollectionTime poolA) = 1"
    and d4: "unat (millisecondCounter (unreferencedEnvironment 10000 0)
             - lastGarbageCollectionTime poolB) = 50000"
    by (simp_all add: poolA_def poolB_def examplePool_def unreferencedEnvironment_def)
  have gc: "garbageCollect (getReferenceCount (unreferencedEnvironment now 0))
              (millisecondCounterAfterScan (unreferencedEnvironment now 0)) poolA
            = \<lparr>strings = [], lastGarbageCollectionTime = now\<rparr>" for now
    unfolding poolA_def by (simp add: garbageCollect_examplePool) (simp add: unreferencedEnvironment_def)
  have e1: "30000 < unat (millisecondCounter (unreferencedEnvironment 20001 0)
             - lastGarbageCollectionTime poolA)"
    by (simp add: d1)
  have "garbageCollectIfNeeded (unreferencedEnvironment 20001 0) poolA
       = garbageCollect (getReferenceCount (unreferencedEnvironment 20001 0))
           (millisecondCounterAfterScan (unreferencedEnvironment 20001 0)) poolA"
    using garbageCollectIfNeeded_interval_guard_wraps
      [of "unreferencedEnvironment 20001 0" poolA] w n e1
    by blast
  then have a: "garbageCollectIfNeeded (unreferencedEnvironment 20001 0) poolA
       = \<lparr>strings = [], lastGarbageCollectionTime = 20001\<rparr>"
    by (simp only: gc)
  have e2: "\<not> (300 < length (strings poolA)
        \<and> unat (lastGarbageCollectionTime poolA) + 30000 - 2 ^ 32
            < unat (millisecondCounter (unreferencedEnvironment 20000 0)))"
    by (simp add: poolA_def examplePool_def unreferencedEnvironment_def)
  have "garbageCollectIfNeeded (unreferencedEnvironment 20000 0) poolA =
          (if 300 < length (strings poolA)
              \<and> unat (lastGarbageCollectionTime poolA) + 30000 - 2 ^ 32
                  < unat (millisecondCounter (unreferencedEnvironment 20000 0))
           then garbageCollect (getReferenceCount (unreferencedEnvironment 20000 0))
                  (millisecondCounterAfterScan (unreferencedEnvironment 20000 0)) poolA
           else poolA)"
    using garbageCollectIfNeeded_interval_guard_wraps
      [of "unreferencedEnvironment 20000 0" poolA] w
    by blast
  then have b: "garbageCollectIfNeeded (unreferencedEnvironment 20000 0) poolA = poolA"
    using e2 by (simp only: if_False)
  have e3: "unat (lastGarbageCollectionTime poolA)
              \<le> unat (millisecondCounter (unreferencedEnvironment 4294957297 0))"
    by (simp add: poolA_def examplePool_def unreferencedEnvironment_def)
  have "garbageCollectIfNeeded (unreferencedEnvironment 4294957297 0) poolA
       = garbageCollect (getReferenceCount (unreferencedEnvironment 4294957297 0))
           (millisecondCounterAfterScan (unreferencedEnvironment 4294957297 0)) poolA"
    using garbageCollectIfNeeded_interval_guard_wraps
      [of "unreferencedEnvironment 4294957297 0" poolA] w n e3
    by blast
  then have c: "garbageCollectIfNeeded (unreferencedEnvironment 4294957297 0) poolA
       = \<lparr>strings = [], lastGarbageCollectionTime = 4294957297\<rparr>"
    by (simp only: gc)
  have e4: "unat (millisecondCounter (unreferencedEnvironment 10000 0))
              < unat (lastGarbageCollectionTime poolB)"
    by (simp add: poolB_def examplePool_def unreferencedEnvironment_def)
  have d: "garbageCollectIfNeeded (unreferencedEnvironment 10000 0) poolB = poolB"
    using garbageCollectIfNeeded_interval_guard_wraps
      [of "unreferencedEnvironment 10000 0" poolB] nw e4
    by blast
  show ?thesis
    using w n nw d1 d2 d3 d4 a b c d unfolding poolA_def poolB_def by simp
qed

end
